theory Spec2Isabelle
  imports Main "HOL-Library.Word"
begin

unbundle bit_operations_syntax

section \<open>The client subsystem of named (bin/named/client.c)\<close>

text \<open>
  A shallow embedding of \<^verbatim>\<open>bin/named/client.c\<close>.  A client is a record; every
  function of the source that changes a client takes the client and returns the changed
  one.  A failed \<^verbatim>\<open>REQUIRE\<close> or \<^verbatim>\<open>INSIST\<close> aborts the server: the model returns
  \<open>None\<close> there.  The libraries the file calls (message codec, sockets, dispatcher,
  memory pools, tasks and timers) are not part of the file: what they answer is an
  argument of the model (a record of outcomes), and every call made to them is written
  to a ghost field \<open>trace\<close> of the client, in the order of the calls.
\<close>

subsection \<open>Result codes, states, messages\<close>

text \<open>
  \<^verbatim>\<open>isc_result_t\<close>: the codes the file names, and \<open>ISC_R_OTHER n\<close> for every
  other code.  \<^verbatim>\<open>DNS_R_SUCCESS\<close> is the same code as \<^verbatim>\<open>ISC_R_SUCCESS\<close>.
\<close>

datatype isc_result =
    ISC_R_SUCCESS | ISC_R_NOMEMORY | ISC_R_NOSPACE | ISC_R_TIMEDOUT
  | DNS_R_REFUSED | DNS_R_NOTIMP | ISC_R_OTHER nat

abbreviation DNS_R_SUCCESS :: isc_result where
  "DNS_R_SUCCESS \<equiv> ISC_R_SUCCESS"

datatype ns_clientstate =
    ns_clientstate_idle | ns_clientstate_listening | ns_clientstate_reading
  | ns_clientstate_working | ns_clientstate_waiting

datatype ns_clienttype = ns_clienttype_basic | ns_clienttype_tcp

datatype dns_opcode =
    dns_opcode_query | dns_opcode_iquery | dns_opcode_status
  | dns_opcode_notify | dns_opcode_update | dns_opcode_other nat

datatype dns_section =
    DNS_SECTION_QUESTION | DNS_SECTION_ANSWER | DNS_SECTION_AUTHORITY
  | DNS_SECTION_ADDITIONAL

type_synonym dns_rcode = "16 word"

text \<open>The fields of \<^verbatim>\<open>dns_message_t\<close> that client.c reads or writes.\<close>

record dns_message =
  flags :: "32 word"
  rcode :: dns_rcode
  opcode :: dns_opcode
  rdclass :: "16 word"

text \<open>
  Modelled from the spec: the QR flag of the message.  \<^verbatim>\<open>DNS_MESSAGEFLAG_QR\<close> is
  declared outside client.c; it is the bit 0x8000 of the flags (the QR bit of the
  header of a DNS message).
\<close>

definition DNS_MESSAGEFLAG_QR :: "32 word" where
  "DNS_MESSAGEFLAG_QR = 0x8000"

record dns_view =
  view_name :: nat
  view_rdclass :: "16 word"

record dns_dispatchevent =
  de_result :: isc_result
  de_buffer :: "8 word list"
  de_addr :: nat

record dns_tcpmsg =
  tcpmsg_result :: isc_result
  tcpmsg_buffer :: "8 word list"

subsection \<open>The trace of calls\<close>

text \<open>
  \<open>Call_send\<close>, \<open>Call_error\<close> and \<open>Call_next\<close> record an entry into one of the three
  public operations; the other events are calls to the libraries, with the result the
  library returned where it returns one.  \<open>Ext_reply q f r\<close> is a call of
  \<^verbatim>\<open>dns_message_reply(message, q)\<close> on a message with flags \<open>f\<close>, returning \<open>r\<close>;
  \<open>Ext_sendto t rc r\<close> is a call of \<^verbatim>\<open>isc_socket_sendto\<close> towards \<open>t\<close>, made while
  the \<^verbatim>\<open>rcode\<close> of the message is \<open>rc\<close>, returning \<open>r\<close>.

  Where \<^verbatim>\<open>isc_socket_sendto\<close> is asked to send: on the TCP socket of the client
  (the address is \<^verbatim>\<open>NULL\<close>), or on the socket of the dispatcher to the address held
  in the dispatch event; \<open>Udp_no_event\<close> is the address computed from a
  \<^verbatim>\<open>dispevent\<close> that is \<^verbatim>\<open>NULL\<close>.
\<close>

datatype send_target = Tcp_socket "nat option" | Udp_peer nat | Udp_no_event

datatype event =
    Call_send | Call_error isc_result | Call_next isc_result
  | Ext_nextcb nat isc_result
  | Ext_view_detach | Ext_message_reset | Ext_freeevent
  | Ext_tcpmsg_invalidate | Ext_socket_detach
  | Ext_readmessage isc_result | Ext_accept isc_result
  | Ext_mempool_get bool | Ext_mempool_put
  | Ext_renderbegin isc_result
  | Ext_rendersection dns_section isc_result
  | Ext_renderend isc_result
  | Ext_sendto send_target dns_rcode isc_result
  | Ext_reply bool "32 word" isc_result
  | Ext_tcpmsg_init
  | Ext_parse isc_result
  | Ext_task_shutdown
  | Ext_query_start | Ext_update_start | Ext_xfrin_test

subsection \<open>The client\<close>

text \<open>
  \<^verbatim>\<open>struct ns_client\<close>, the fields client.c uses.  Pointers are \<open>option\<close>s
  (\<open>None\<close> is \<^verbatim>\<open>NULL\<close>); \<open>nextp\<close> is the field \<^verbatim>\<open>next\<close>; \<open>sendbufs\<close> is the
  number of buffers of the send pool that are handed out; \<open>trace\<close> is the ghost trace.
  \<^verbatim>\<open>nsends\<close> is a C \<^verbatim>\<open>int\<close>, modelled as an integer without bound: it counts
  the sends that hold a buffer of the pool, and stays between 0 and 3 (lemma
  \<open>quiescent_pool_inv\<close> below).
\<close>

record ns_client =
  magic :: "32 word"
  ctype :: ns_clienttype
  state :: ns_clientstate
  attributes :: "32 word"
  nsends :: int
  task :: nat
  view :: "dns_view option"
  dispatch :: "nat option"
  dispentry :: "nat option"
  dispevent :: "dns_dispatchevent option"
  tcplistener :: "nat option"
  tcpsocket :: "nat option"
  tcpmsg :: dns_tcpmsg
  timer :: "nat option"
  message :: dns_message
  sendbufs :: nat
  nextp :: "nat option"
  requesttime :: "32 word"
  trace :: "event list"

definition NS_CLIENT_MAGIC :: "32 word" where
  "NS_CLIENT_MAGIC = 0x4E534363"

definition NS_CLIENT_VALID :: "ns_client \<Rightarrow> bool" where
  "NS_CLIENT_VALID c = (magic c = NS_CLIENT_MAGIC)"

definition NS_CLIENTATTR_TCP :: "32 word" where
  "NS_CLIENTATTR_TCP = 0x01"

definition TCP_CLIENT :: "ns_client \<Rightarrow> bool" where
  "TCP_CLIENT c = (attributes c AND NS_CLIENTATTR_TCP \<noteq> 0)"

definition emit :: "event list \<Rightarrow> ns_client \<Rightarrow> ns_client" where
  "emit es c = c\<lparr>trace := trace c @ es\<rparr>"

subsection \<open>What the libraries answer\<close>

text \<open>
  The answers of the libraries during one call of \<^verbatim>\<open>ns_client_send\<close>,
  \<^verbatim>\<open>ns_client_error\<close> or \<^verbatim>\<open>ns_client_next\<close>.  \<open>o_mem\<close>: the memory context has
  memory for a send buffer.  \<open>o_reply q m\<close>: the result of
  \<^verbatim>\<open>dns_message_reply(message, q)\<close> on the header fields \<open>m\<close> and the header fields
  it leaves.  \<open>o_reset\<close>: the header fields \<^verbatim>\<open>dns_message_reset\<close> leaves.
  \<open>o_torcode\<close>: \<^verbatim>\<open>dns_result_torcode\<close>.
\<close>

record outcomes =
  o_torcode :: "isc_result \<Rightarrow> dns_rcode"
  o_reply :: "bool \<Rightarrow> dns_message \<Rightarrow> isc_result \<times> dns_message"
  o_reset :: "dns_message \<Rightarrow> dns_message"
  o_mem :: bool
  o_renderbegin :: isc_result
  o_question :: isc_result
  o_answer :: isc_result
  o_authority :: isc_result
  o_additional :: isc_result
  o_renderend :: isc_result
  o_sendto :: isc_result
  o_readmessage :: isc_result
  o_accept :: isc_result

subsection \<open>client\_accept, client\_read, ns\_client\_next\<close>

text \<open>
  \<^verbatim>\<open>client_accept\<close>: registers an accept on the listener; when that fails the client
  goes idle.
\<close>

definition client_accept :: "outcomes \<Rightarrow> ns_client \<Rightarrow> ns_client" where
  "client_accept oc c =
     (let result = o_accept oc;
          c = emit [Ext_accept result] c
      in if result \<noteq> ISC_R_SUCCESS
         then c\<lparr>state := ns_clientstate_idle\<rparr>
         else c)"

text \<open>
  \<^verbatim>\<open>ns_client_next\<close> and \<^verbatim>\<open>client_read\<close> call each other: \<^verbatim>\<open>ns_client_next\<close>
  calls \<^verbatim>\<open>client_read\<close> when the result is success, and \<^verbatim>\<open>client_read\<close> calls
  \<^verbatim>\<open>ns_client_next\<close> with a result that is not success.
\<close>

function ns_client_next :: "outcomes \<Rightarrow> ns_client \<Rightarrow> isc_result \<Rightarrow> ns_client option"
  and client_read :: "outcomes \<Rightarrow> ns_client \<Rightarrow> ns_client option" where
  "ns_client_next oc c result =
     (if \<not> NS_CLIENT_VALID c then None
      else if \<not> (state c = ns_clientstate_listening \<or> state c = ns_clientstate_working)
      then None
      else
        let c = emit [Call_next result] c;
            c = (case nextp c of
                   None \<Rightarrow> c
                 | Some f \<Rightarrow> (emit [Ext_nextcb f result] c)\<lparr>nextp := None\<rparr>);
            c = (case view c of
                   None \<Rightarrow> c
                 | Some v \<Rightarrow> (emit [Ext_view_detach] c)\<lparr>view := None\<rparr>);
            c = (emit [Ext_message_reset] c)\<lparr>message := o_reset oc (message c)\<rparr>
        in if dispevent c \<noteq> None
           then Some ((emit [Ext_freeevent] c)
                        \<lparr>dispevent := None, state := ns_clientstate_listening\<rparr>)
           else if TCP_CLIENT c
           then (if result = ISC_R_SUCCESS
                 then client_read oc c
                 else
                   let c = (if tcpsocket c \<noteq> None
                            then (emit [Ext_tcpmsg_invalidate, Ext_socket_detach] c)
                                   \<lparr>tcpsocket := None\<rparr>
                            else c)
                   in Some (client_accept oc c))
           else Some c)"
| "client_read oc c =
     (let result = o_readmessage oc;
          c = emit [Ext_readmessage result] c
      in case (if result \<noteq> ISC_R_SUCCESS then ns_client_next oc c result else Some c) of
           None \<Rightarrow> None
         | Some c \<Rightarrow> Some (c\<lparr>state := ns_clientstate_reading\<rparr>))"
  by pat_completeness auto
termination
  by (relation "measure (\<lambda>x. case x of
                    Inl (oc, c, r) \<Rightarrow> (if r = ISC_R_SUCCESS then 2 else 0)
                  | Inr (oc, c) \<Rightarrow> 1)") auto

declare ns_client_next.simps [simp del]
declare client_read.simps [simp del]

subsection \<open>The send pool\<close>

text \<open>
  Modelled from the spec: \<^verbatim>\<open>isc_mempool_get\<close> and \<^verbatim>\<open>isc_mempool_put\<close> on the
  send pool, which are not part of client.c.  The pool is bounded: \<^verbatim>\<open>client_create\<close>
  sets its \<^verbatim>\<open>maxalloc\<close> to 3, so a fourth buffer is refused; a buffer is also
  refused when the memory context has none.  The first component of the result says
  whether a buffer was returned (\<^verbatim>\<open>data != NULL\<close>), the second is the number of
  buffers handed out afterwards.  A buffer that is put back had been handed out, so the
  number is not zero before \<^verbatim>\<open>isc_mempool_put\<close> (lemma \<open>quiescent_pool_inv\<close> below).
\<close>

definition SENDBUFS_MAXALLOC :: nat where
  "SENDBUFS_MAXALLOC = 3"

definition isc_mempool_get :: "bool \<Rightarrow> nat \<Rightarrow> bool \<times> nat" where
  "isc_mempool_get mem allocated =
     (if SENDBUFS_MAXALLOC \<le> allocated \<or> \<not> mem then (False, allocated)
      else (True, allocated + 1))"

definition isc_mempool_put :: "nat \<Rightarrow> nat" where
  "isc_mempool_put allocated = allocated - 1"

subsection \<open>ns\_client\_send\<close>

text \<open>
  The label \<^verbatim>\<open>done\<close> of \<^verbatim>\<open>ns_client_send\<close>: the buffer goes back to the pool
  unless the send was scheduled, then \<^verbatim>\<open>ns_client_next(client, result)\<close>.
\<close>

definition send_done :: "outcomes \<Rightarrow> ns_client \<Rightarrow> isc_result \<Rightarrow> ns_client option" where
  "send_done oc c result =
     (let c = (if result \<noteq> ISC_R_SUCCESS
               then (emit [Ext_mempool_put] c)\<lparr>sendbufs := isc_mempool_put (sendbufs c)\<rparr>
               else c)
      in ns_client_next oc c result)"

text \<open>
  \<^verbatim>\<open>ns_client_send\<close> from the first call of the renderer to the label
  \<^verbatim>\<open>done\<close>: the client and the result with which control reaches the label (every
  \<^verbatim>\<open>goto done\<close> is a branch that returns).  The contents of the buffer (and the two
  bytes of length that precede the message on TCP) are not part of the model.
\<close>

definition send_render :: "outcomes \<Rightarrow> ns_client \<Rightarrow> ns_client \<times> isc_result" where
  "send_render oc c =
     (let result = o_renderbegin oc;
          c = emit [Ext_renderbegin result] c
      in if result \<noteq> ISC_R_SUCCESS then (c, result)
      else
      let result = o_question oc;
          c = emit [Ext_rendersection DNS_SECTION_QUESTION result] c
      in if result \<noteq> ISC_R_SUCCESS then (c, result)
      else
      let result = o_answer oc;
          c = emit [Ext_rendersection DNS_SECTION_ANSWER result] c
      in if result \<noteq> ISC_R_SUCCESS then (c, result)
      else
      let result = o_authority oc;
          c = emit [Ext_rendersection DNS_SECTION_AUTHORITY result] c
      in if result \<noteq> ISC_R_SUCCESS then (c, result)
      else
      let result = o_additional oc;
          c = emit [Ext_rendersection DNS_SECTION_ADDITIONAL result] c
      in if result \<noteq> ISC_R_SUCCESS \<and> result \<noteq> ISC_R_NOSPACE then (c, result)
      else
      let result = o_renderend oc;
          c = emit [Ext_renderend result] c
      in if result \<noteq> ISC_R_SUCCESS then (c, result)
      else
      let target = (if TCP_CLIENT c then Tcp_socket (tcpsocket c)
                    else (case dispevent c of
                            None \<Rightarrow> Udp_no_event
                          | Some devent \<Rightarrow> Udp_peer (de_addr devent)));
          result = o_sendto oc;
          c = emit [Ext_sendto target (rcode (message c)) result] c;
          c = (if result = ISC_R_SUCCESS then c\<lparr>nsends := nsends c + 1\<rparr> else c)
      in (c, result))"

text \<open>
  \<^verbatim>\<open>ns_client_send\<close>: the acquisition of the buffer, then the rendering and the send
  (\<open>send_render\<close>), then the label \<^verbatim>\<open>done\<close> (\<open>send_done\<close>).
\<close>

definition ns_client_send :: "outcomes \<Rightarrow> ns_client \<Rightarrow> ns_client option" where
  "ns_client_send oc c =
     (if \<not> NS_CLIENT_VALID c then None
      else
        let c = emit [Call_send] c;
            (data, n) = isc_mempool_get (o_mem oc) (sendbufs c);
            c = (emit [Ext_mempool_get data] c)\<lparr>sendbufs := n\<rparr>
        in if \<not> data
           then (if 0 < nsends c
                 then (if state c \<noteq> ns_clientstate_working then None
                       else Some (c\<lparr>state := ns_clientstate_waiting\<rparr>))
                 else ns_client_next oc c ISC_R_NOMEMORY)
           else
             let (c, result) = send_render oc c
             in send_done oc c result)"

subsection \<open>ns\_client\_error\<close>

definition ns_client_error :: "outcomes \<Rightarrow> ns_client \<Rightarrow> isc_result \<Rightarrow> ns_client option" where
  "ns_client_error oc c result =
     (if \<not> NS_CLIENT_VALID c then None
      else
        let c = emit [Call_error result] c;
            rcode = o_torcode oc result;
            c = c\<lparr>message := (message c)
                    \<lparr>flags := flags (message c) AND NOT DNS_MESSAGEFLAG_QR\<rparr>\<rparr>;
            (result, m) = o_reply oc True (message c);
            c = (emit [Ext_reply True (flags (message c)) result] c)\<lparr>message := m\<rparr>
        in if result \<noteq> ISC_R_SUCCESS
           then
             let (result, m) = o_reply oc False (message c);
                 c = (emit [Ext_reply False (flags (message c)) result] c)\<lparr>message := m\<rparr>
             in if result \<noteq> ISC_R_SUCCESS
                then ns_client_next oc c result
                else ns_client_send oc (c\<lparr>message := (message c)\<lparr>rcode := rcode\<rparr>\<rparr>)
           else ns_client_send oc (c\<lparr>message := (message c)\<lparr>rcode := rcode\<rparr>\<rparr>))"

subsection \<open>Events and their handlers\<close>

text \<open>
  The events the reactor delivers to a client (\<^verbatim>\<open>event->type\<close> with what the event
  carries).  \<open>DNS_EVENT_TCPMSG b\<close>: \<open>b\<close> says that the sender of the event is the
  TCP message reader of this client.  The argument of every event is the client.
\<close>

datatype isc_event =
    ISC_TASKEVENT_SHUTDOWN
  | ISC_SOCKEVENT_SENDDONE
  | ISC_SOCKEVENT_NEWCONN isc_result nat
  | ISC_TIMEREVENT_LIFE | ISC_TIMEREVENT_IDLE
  | DNS_EVENT_DISPATCH dns_dispatchevent
  | DNS_EVENT_TCPMSG bool

definition client_senddone :: "outcomes \<Rightarrow> nat \<Rightarrow> isc_event \<Rightarrow> ns_client \<Rightarrow> ns_client option" where
  "client_senddone oc tsk sevent c =
     (if sevent \<noteq> ISC_SOCKEVENT_SENDDONE then None
      else if \<not> NS_CLIENT_VALID c then None
      else if tsk \<noteq> task c then None
      else if \<not> 0 < nsends c then None
      else
        let c = c\<lparr>nsends := nsends c - 1\<rparr>;
            c = (emit [Ext_mempool_put] c)\<lparr>sendbufs := isc_mempool_put (sendbufs c)\<rparr>
        in if state c = ns_clientstate_waiting
           then ns_client_send oc (c\<lparr>state := ns_clientstate_working\<rparr>)
           else Some c)"

text \<open>
  What the libraries answer to \<^verbatim>\<open>client_request\<close> before it dispatches:
  \<^verbatim>\<open>isc_stdtime_get\<close> (result and time), \<^verbatim>\<open>dns_message_parse\<close> (result and the
  header fields of the parsed message) and the list of views \<^verbatim>\<open>ns_g_viewlist\<close>.
\<close>

record request_env =
  rq_stdtime :: "isc_result \<times> 32 word"
  rq_parse :: "dns_message \<Rightarrow> 8 word list \<Rightarrow> isc_result \<times> dns_message"
  rq_viewlist :: "dns_view list"

text \<open>
  \<^verbatim>\<open>client_request\<close>, in three parts: \<open>request_input\<close> is the choice of buffer
  and transport result by the type of the event, \<open>request_dispatch\<close> is the
  \<^verbatim>\<open>switch\<close> on the opcode at the end.  \<open>oc1\<close> holds the answers of the libraries
  during the first call of \<^verbatim>\<open>ns_client_error\<close> or \<^verbatim>\<open>ns_client_next\<close> that the
  function makes, \<open>oc2\<close> those during the second.  The query and update handlers are not part of the
  file: \<^verbatim>\<open>ns_query_start\<close> and \<^verbatim>\<open>ns_update_start\<close> are events of the trace.
  In the \<^verbatim>\<open>switch\<close>, the case \<^verbatim>\<open>dns_opcode_iquery\<close> has no \<^verbatim>\<open>break\<close>: control
  goes on into the \<^verbatim>\<open>default\<close> case.
\<close>

definition request_input ::
  "isc_event \<Rightarrow> ns_client \<Rightarrow> (ns_client \<times> 8 word list \<times> isc_result) option" where
  "request_input ev c =
     (case ev of
        DNS_EVENT_DISPATCH devent \<Rightarrow>
          if dispentry c = None then None
          else Some (c\<lparr>dispevent := Some devent\<rparr>, de_buffer devent, de_result devent)
      | DNS_EVENT_TCPMSG sender_ok \<Rightarrow>
          if \<not> sender_ok then None
          else Some (c, tcpmsg_buffer (tcpmsg c), tcpmsg_result (tcpmsg c))
      | _ \<Rightarrow> None)"

definition request_dispatch :: "outcomes \<Rightarrow> outcomes \<Rightarrow> ns_client \<Rightarrow> ns_client option" where
  "request_dispatch oc1 oc2 c =
     (case opcode (message c) of
        dns_opcode_query \<Rightarrow> Some (emit [Ext_query_start] c)
      | dns_opcode_update \<Rightarrow> Some (emit [Ext_update_start] c)
      | dns_opcode_notify \<Rightarrow> ns_client_next oc1 (emit [Ext_xfrin_test] c) DNS_R_SUCCESS
      | dns_opcode_iquery \<Rightarrow>
          (case ns_client_error oc1 c DNS_R_REFUSED of
             None \<Rightarrow> None
           | Some c1 \<Rightarrow> ns_client_error oc2 c1 DNS_R_NOTIMP)
      | _ \<Rightarrow> ns_client_error oc1 c DNS_R_NOTIMP)"

definition client_request ::
  "request_env \<Rightarrow> outcomes \<Rightarrow> outcomes \<Rightarrow> nat \<Rightarrow> isc_event \<Rightarrow> ns_client \<Rightarrow> ns_client option" where
  "client_request rq oc1 oc2 tsk ev c =
     (if \<not> NS_CLIENT_VALID c then None
      else if tsk \<noteq> task c then None
      else
        case request_input ev c of
          None \<Rightarrow> None
        | Some (c, buffer, result) \<Rightarrow>
            let c = c\<lparr>state := ns_clientstate_working\<rparr>;
                c = c\<lparr>requesttime := (if fst (rq_stdtime rq) \<noteq> ISC_R_SUCCESS then 0
                                      else snd (rq_stdtime rq))\<rparr>
            in if result \<noteq> ISC_R_SUCCESS
               then (if TCP_CLIENT c then ns_client_next oc1 c result
                     else Some (emit [Ext_task_shutdown] c))
               else
                 let (result, m) = rq_parse rq (message c) buffer;
                     c = (emit [Ext_parse result] c)\<lparr>message := m\<rparr>
                 in if result \<noteq> ISC_R_SUCCESS then ns_client_error oc1 c result
                    else if flags (message c) AND DNS_MESSAGEFLAG_QR \<noteq> 0 then None
                    else
                      (case find (\<lambda>v. rdclass (message c) = view_rdclass v) (rq_viewlist rq) of
                         None \<Rightarrow> ns_client_error oc1 c DNS_R_REFUSED
                       | Some v \<Rightarrow> request_dispatch oc1 oc2 (c\<lparr>view := Some v\<rparr>)))"

definition client_timeout :: "outcomes \<Rightarrow> nat \<Rightarrow> isc_event \<Rightarrow> ns_client \<Rightarrow> ns_client option" where
  "client_timeout oc tsk ev c =
     (if \<not> (ev = ISC_TIMEREVENT_LIFE \<or> ev = ISC_TIMEREVENT_IDLE) then None
      else if \<not> NS_CLIENT_VALID c then None
      else if tsk \<noteq> task c then None
      else if timer c = None then None
      else ns_client_next oc c ISC_R_TIMEDOUT)"

definition client_newconn :: "outcomes \<Rightarrow> nat \<Rightarrow> isc_event \<Rightarrow> ns_client \<Rightarrow> ns_client option" where
  "client_newconn oc tsk ev c =
     (case ev of
        ISC_SOCKEVENT_NEWCONN result newsocket \<Rightarrow>
          if \<not> NS_CLIENT_VALID c then None
          else if task c \<noteq> tsk then None
          else if result = ISC_R_SUCCESS
          then client_read oc ((emit [Ext_tcpmsg_init] c)\<lparr>tcpsocket := Some newsocket\<rparr>)
          else Some (c\<lparr>state := ns_clientstate_idle\<rparr>)
      | _ \<Rightarrow> None)"

text \<open>
  Everything that runs on the task of a client: the four event handlers of the file, and
  the three operations a request handler calls when it has finished with the request.
\<close>

datatype activation =
    On_request request_env outcomes outcomes nat isc_event
  | On_senddone outcomes nat isc_event
  | On_timeout outcomes nat isc_event
  | On_newconn outcomes nat isc_event
  | Handler_send outcomes
  | Handler_error outcomes isc_result
  | Handler_next outcomes isc_result

fun activate :: "activation \<Rightarrow> ns_client \<Rightarrow> ns_client option" where
  "activate (On_request rq oc1 oc2 tsk ev) c = client_request rq oc1 oc2 tsk ev c"
| "activate (On_senddone oc tsk ev) c = client_senddone oc tsk ev c"
| "activate (On_timeout oc tsk ev) c = client_timeout oc tsk ev c"
| "activate (On_newconn oc tsk ev) c = client_newconn oc tsk ev c"
| "activate (Handler_send oc) c = ns_client_send oc c"
| "activate (Handler_error oc r) c = ns_client_error oc c r"
| "activate (Handler_next oc r) c = ns_client_next oc c r"

subsection \<open>Observations on the trace\<close>

text \<open>
  The number of reads registered with the TCP message reader so far: the calls of
  \<^verbatim>\<open>dns_tcpmsg_readmessage\<close> that returned success.
\<close>

definition registered_reads :: "ns_client \<Rightarrow> nat" where
  "registered_reads c = length (filter (\<lambda>e. e = Ext_readmessage ISC_R_SUCCESS) (trace c))"

text \<open>The events \<^verbatim>\<open>ns_client_next\<close> can add to the trace.\<close>

fun next_event :: "event \<Rightarrow> bool" where
  "next_event (Call_next r) = True"
| "next_event (Ext_nextcb f r) = True"
| "next_event Ext_view_detach = True"
| "next_event Ext_message_reset = True"
| "next_event Ext_freeevent = True"
| "next_event Ext_tcpmsg_invalidate = True"
| "next_event Ext_socket_detach = True"
| "next_event (Ext_readmessage r) = True"
| "next_event (Ext_accept r) = True"
| "next_event _ = False"

text \<open>Rendering and sending; entries into the three operations.\<close>

fun transmit_event :: "event \<Rightarrow> bool" where
  "transmit_event (Ext_renderbegin r) = True"
| "transmit_event (Ext_rendersection s r) = True"
| "transmit_event (Ext_renderend r) = True"
| "transmit_event (Ext_sendto t rc r) = True"
| "transmit_event _ = False"

fun call_next_event :: "event \<Rightarrow> bool" where
  "call_next_event (Call_next r) = True"
| "call_next_event _ = False"

fun call_error_event :: "event \<Rightarrow> bool" where
  "call_error_event (Call_error r) = True"
| "call_error_event _ = False"

text \<open>
  \<open>extends P c c'\<close>: the trace of \<open>c'\<close> is the trace of \<open>c\<close> followed by events that
  are all in \<open>P\<close>.
\<close>

definition extends :: "(event \<Rightarrow> bool) \<Rightarrow> ns_client \<Rightarrow> ns_client \<Rightarrow> bool" where
  "extends P c c' =
     (take (length (trace c)) (trace c') = trace c
      \<and> list_all P (drop (length (trace c)) (trace c')))"

text \<open>
  Two stages of \<^verbatim>\<open>ns_client_send\<close>, for stating what it does: \<open>acquired c n\<close> is
  the client once the pool has handed out a buffer (and \<open>n\<close> buffers are out);
  \<open>released es c\<close> is the client after the calls \<open>es\<close> and the return of the buffer
  to the pool at the label \<^verbatim>\<open>done\<close>.
\<close>

definition acquired :: "ns_client \<Rightarrow> nat \<Rightarrow> ns_client" where
  "acquired c n = (emit [Call_send, Ext_mempool_get True] c)\<lparr>sendbufs := n\<rparr>"

definition released :: "event list \<Rightarrow> ns_client \<Rightarrow> ns_client" where
  "released es c =
     (emit (es @ [Ext_mempool_put]) c)\<lparr>sendbufs := isc_mempool_put (sendbufs c)\<rparr>"

text \<open>Where \<^verbatim>\<open>ns_client_send\<close> sends: the choice of socket and address.\<close>

definition send_target_of :: "ns_client \<Rightarrow> send_target" where
  "send_target_of c =
     (if TCP_CLIENT c then Tcp_socket (tcpsocket c)
      else (case dispevent c of
              None \<Rightarrow> Udp_no_event
            | Some devent \<Rightarrow> Udp_peer (de_addr devent)))"

subsection \<open>Sample clients and answers\<close>

text \<open>
  A UDP client as \<^verbatim>\<open>ns_clientmgr_addtodispatch\<close> leaves it, a TCP client at work on
  a connection, and libraries that answer success to everything.  \<open>sample_torcode\<close>
  maps the two result codes the dispatch uses to the response codes REFUSED (5) and
  NOTIMP (4), and every other failure to SERVFAIL (2).
\<close>

definition sample_client :: ns_client where
  "sample_client =
     \<lparr>magic = NS_CLIENT_MAGIC, ctype = ns_clienttype_basic,
      state = ns_clientstate_listening, attributes = 0, nsends = 0, task = 1,
      view = None, dispatch = Some 5, dispentry = Some 7, dispevent = None,
      tcplistener = None, tcpsocket = None,
      tcpmsg = \<lparr>tcpmsg_result = ISC_R_SUCCESS, tcpmsg_buffer = []\<rparr>,
      timer = Some 9,
      message = \<lparr>flags = 0, rcode = 0, opcode = dns_opcode_query, rdclass = 0\<rparr>,
      sendbufs = 0, nextp = None, requesttime = 0, trace = []\<rparr>"

definition sample_tcp_client :: ns_client where
  "sample_tcp_client =
     sample_client\<lparr>ctype := ns_clienttype_tcp, state := ns_clientstate_working,
       attributes := NS_CLIENTATTR_TCP, dispatch := None, dispentry := None,
       tcplistener := Some 3, tcpsocket := Some 4\<rparr>"

definition sample_torcode :: "isc_result \<Rightarrow> dns_rcode" where
  "sample_torcode r =
     (case r of ISC_R_SUCCESS \<Rightarrow> 0 | DNS_R_REFUSED \<Rightarrow> 5 | DNS_R_NOTIMP \<Rightarrow> 4 | _ \<Rightarrow> 2)"

definition all_success :: outcomes where
  "all_success =
     \<lparr>o_torcode = sample_torcode,
      o_reply = (\<lambda>q m. (ISC_R_SUCCESS, m\<lparr>flags := flags m OR DNS_MESSAGEFLAG_QR\<rparr>)),
      o_reset = (\<lambda>m. m\<lparr>flags := 0, rcode := 0\<rparr>),
      o_mem = True,
      o_renderbegin = ISC_R_SUCCESS, o_question = ISC_R_SUCCESS,
      o_answer = ISC_R_SUCCESS, o_authority = ISC_R_SUCCESS,
      o_additional = ISC_R_SUCCESS, o_renderend = ISC_R_SUCCESS,
      o_sendto = ISC_R_SUCCESS, o_readmessage = ISC_R_SUCCESS,
      o_accept = ISC_R_SUCCESS\<rparr>"

subsection \<open>Events of a send\<close>

text \<open>
  The events \<^verbatim>\<open>ns_client_send\<close> can add to the trace: everything except entries
  into \<^verbatim>\<open>ns_client_error\<close> and the calls made by \<^verbatim>\<open>ns_client_error\<close> and the event
  handlers only.
\<close>

fun send_event :: "event \<Rightarrow> bool" where
  "send_event (Call_error r) = False"
| "send_event (Ext_reply q f r) = False"
| "send_event (Ext_parse r) = False"
| "send_event Ext_task_shutdown = False"
| "send_event Ext_query_start = False"
| "send_event Ext_update_start = False"
| "send_event Ext_xfrin_test = False"
| "send_event Ext_tcpmsg_init = False"
| "send_event _ = True"

text \<open>
  The steps of \<^verbatim>\<open>ns_client_error\<close> on the message, for stating what it does: the
  message with the QR flag cleared, the call of \<^verbatim>\<open>dns_message_reply\<close> that keeps the
  question section, and the call that does not (made on what the first call left).
\<close>

definition qr_cleared :: "dns_message \<Rightarrow> dns_message" where
  "qr_cleared m = m\<lparr>flags := flags m AND NOT DNS_MESSAGEFLAG_QR\<rparr>"

definition first_reply :: "outcomes \<Rightarrow> ns_client \<Rightarrow> isc_result \<times> dns_message" where
  "first_reply oc c = o_reply oc True (qr_cleared (message c))"

definition second_reply :: "outcomes \<Rightarrow> ns_client \<Rightarrow> isc_result \<times> dns_message" where
  "second_reply oc c = o_reply oc False (snd (first_reply oc c))"

text \<open>
  The UDP client at work on a request (it holds the dispatch event of the request), and
  the same client with three sends outstanding, each holding a buffer of the pool.
\<close>

definition working_client :: ns_client where
  "working_client =
     sample_client\<lparr>state := ns_clientstate_working,
       dispevent := Some \<lparr>de_result = ISC_R_SUCCESS, de_buffer = [], de_addr = 42\<rparr>\<rparr>"

definition busy_client :: ns_client where
  "busy_client = working_client\<lparr>nsends := 3, sendbufs := 3\<rparr>"

text \<open>
  A request that parses to opcode IQUERY in class 1 with a view of that class, and a
  dispatch event that delivers a request from the peer with address 42.
\<close>

definition iquery_env :: request_env where
  "iquery_env =
     \<lparr>rq_stdtime = (ISC_R_SUCCESS, 1000),
      rq_parse = (\<lambda>m b. (ISC_R_SUCCESS,
                    \<lparr>flags = 0, rcode = 0, opcode = dns_opcode_iquery, rdclass = 1\<rparr>)),
      rq_viewlist = [\<lparr>view_name = 0, view_rdclass = 1\<rparr>]\<rparr>"

definition peer_event :: isc_event where
  "peer_event =
     DNS_EVENT_DISPATCH \<lparr>de_result = ISC_R_SUCCESS, de_buffer = [], de_addr = 42\<rparr>"

subsection \<open>The client manager\<close>

text \<open>
  \<^verbatim>\<open>struct ns_clientmgr\<close>.  The list of clients holds the addresses of the clients,
  in the order of the list.  The memory context, task manager and timer manager are
  reached through \<open>create_outcomes\<close> below.
\<close>

record ns_clientmgr =
  m_magic :: "32 word"
  exiting :: bool
  nclients :: "32 word"
  clients :: "nat list"

definition MANAGER_MAGIC :: "32 word" where
  "MANAGER_MAGIC = 0x4E53436D"

definition VALID_MANAGER :: "ns_clientmgr \<Rightarrow> bool" where
  "VALID_MANAGER m = (m_magic m = MANAGER_MAGIC)"

text \<open>
  The manager with its clients: \<open>store\<close> holds the clients that exist, by address
  (\<open>None\<close>: no client at that address); \<open>manager_freed\<close> says that the memory of the
  manager has been returned (\<^verbatim>\<open>isc_mem_put\<close> in \<^verbatim>\<open>clientmgr_destroy\<close>);
  \<open>shutdowns\<close> lists the clients whose task has been sent a shutdown by
  \<^verbatim>\<open>ns_clientmgr_destroy\<close>, in the order of the calls of \<^verbatim>\<open>isc_task_shutdown\<close>.
\<close>

record server =
  manager :: ns_clientmgr
  manager_freed :: bool
  store :: "nat \<Rightarrow> ns_client option"
  shutdowns :: "nat list"

definition clientmgr_destroy :: "server \<Rightarrow> server option" where
  "clientmgr_destroy s =
     (if nclients (manager s) \<noteq> 0 then None
      else if clients (manager s) \<noteq> [] then None
      else Some (s\<lparr>manager := (manager s)\<lparr>m_magic := 0\<rparr>, manager_freed := True\<rparr>))"

text \<open>
  \<^verbatim>\<open>client_free\<close> releases what the client holds, clears its magic number and returns
  its memory.  \<open>client_free_calls\<close> lists the releases in the order of the source; in
  the model the client leaves the store.
\<close>

datatype release =
    Rel_query_free | Rel_mempool_destroy | Rel_message_destroy | Rel_timer_detach
  | Rel_removerequest bool | Rel_dispatch_detach | Rel_listener_detach
  | Rel_tcpmsg_cancelread | Rel_tcpmsg_invalidate | Rel_socket_detach
  | Rel_task_detach | Rel_mem_put

definition client_free_calls :: "ns_client \<Rightarrow> release list" where
  "client_free_calls c =
     [Rel_query_free, Rel_mempool_destroy, Rel_message_destroy, Rel_timer_detach]
     @ (if dispentry c \<noteq> None then [Rel_removerequest (dispevent c \<noteq> None)] else [])
     @ (if dispatch c \<noteq> None then [Rel_dispatch_detach] else [])
     @ (if tcplistener c \<noteq> None then [Rel_listener_detach] else [])
     @ (if tcpsocket c \<noteq> None
        then (if state c = ns_clientstate_reading then [Rel_tcpmsg_cancelread] else [])
             @ [Rel_tcpmsg_invalidate, Rel_socket_detach]
        else [])
     @ [Rel_task_detach, Rel_mem_put]"

definition client_free :: "nat \<Rightarrow> server \<Rightarrow> server" where
  "client_free a s = s\<lparr>store := (store s)(a := None)\<rparr>"

text \<open>
  \<^verbatim>\<open>client_destroy\<close>, for the client at address \<open>a\<close>.  The decision to destroy the
  manager is taken under the lock, before the client is unlinked; the manager is
  destroyed after the client has been freed.
\<close>

definition client_destroy :: "nat \<Rightarrow> server \<Rightarrow> server option" where
  "client_destroy a s =
     (case store s a of
        None \<Rightarrow> None
      | Some c \<Rightarrow>
          if \<not> NS_CLIENT_VALID c then None
          else if \<not> 0 < nclients (manager s) then None
          else
            let m = (manager s)\<lparr>nclients := nclients (manager s) - 1\<rparr>;
                need_clientmgr_destroy = (nclients m = 0 \<and> exiting m);
                m = m\<lparr>clients := remove1 a (clients m)\<rparr>;
                s = s\<lparr>manager := m\<rparr>;
                s = client_free a s
            in if need_clientmgr_destroy then clientmgr_destroy s else Some s)"

definition client_shutdown :: "nat \<Rightarrow> isc_event \<Rightarrow> nat \<Rightarrow> server \<Rightarrow> server option" where
  "client_shutdown tsk ev a s =
     (if ev \<noteq> ISC_TASKEVENT_SHUTDOWN then None
      else case store s a of
             None \<Rightarrow> None
           | Some c \<Rightarrow>
               if \<not> NS_CLIENT_VALID c then None
               else if tsk \<noteq> task c then None
               else client_destroy a s)"

text \<open>
  The loop of \<^verbatim>\<open>ns_clientmgr_destroy\<close> over the list of clients: a shutdown is sent
  to the task of each client.  Reading the task of a client that does not exist has no
  defined behaviour; the model returns \<open>None\<close>.
\<close>

fun shutdown_all :: "nat list \<Rightarrow> server \<Rightarrow> server option" where
  "shutdown_all [] s = Some s"
| "shutdown_all (a # as) s =
     (case store s a of
        None \<Rightarrow> None
      | Some c \<Rightarrow> shutdown_all as (s\<lparr>shutdowns := shutdowns s @ [a]\<rparr>))"

definition ns_clientmgr_destroy :: "server \<Rightarrow> server option" where
  "ns_clientmgr_destroy s =
     (if manager_freed s \<or> \<not> VALID_MANAGER (manager s) then None
      else
        let s = s\<lparr>manager := (manager s)\<lparr>exiting := True\<rparr>\<rparr>
        in case shutdown_all (clients (manager s)) s of
             None \<Rightarrow> None
           | Some s \<Rightarrow>
               let need_destroy = (clients (manager s) = [])
               in if need_destroy then clientmgr_destroy s else Some s)"

text \<open>
  The shutdown events of the clients \<open>as\<close>, delivered in this order, each to the task of
  its client.
\<close>

fun run_shutdowns :: "nat list \<Rightarrow> server \<Rightarrow> server option" where
  "run_shutdowns [] s = Some s"
| "run_shutdowns (a # as) s =
     (case store s a of
        None \<Rightarrow> None
      | Some c \<Rightarrow>
          (case client_shutdown (task c) ISC_TASKEVENT_SHUTDOWN a s of
             None \<Rightarrow> None
           | Some s1 \<Rightarrow> run_shutdowns as s1))"

subsection \<open>Creating clients\<close>

text \<open>
  What the libraries answer during one call of \<^verbatim>\<open>client_create\<close>: the address
  \<^verbatim>\<open>isc_mem_get\<close> returns (\<open>None\<close> is \<^verbatim>\<open>NULL\<close>) and the contents of that memory,
  and the results of the six calls that follow, with the task, timer and message they
  create.
\<close>

record create_outcomes =
  co_mem :: "nat option"
  co_raw :: ns_client
  co_task :: "isc_result \<times> nat"
  co_onshutdown :: isc_result
  co_timer :: "isc_result \<times> nat"
  co_message :: "isc_result \<times> dns_message"
  co_sendbufs :: isc_result
  co_query_init :: isc_result

text \<open>
  \<^verbatim>\<open>client_create\<close>: \<open>Inl r\<close> is the return of the failure \<open>r\<close> after the cleanup,
  \<open>Inr (a, c)\<close> is success with the client \<open>c\<close> at address \<open>a\<close>.  The fields the
  function does not set keep what the memory held.
\<close>

definition client_create ::
  "create_outcomes \<Rightarrow> ns_clienttype \<Rightarrow> isc_result + (nat \<times> ns_client)" where
  "client_create co typ =
     (case co_mem co of
        None \<Rightarrow> Inl ISC_R_NOMEMORY
      | Some a \<Rightarrow>
          if fst (co_task co) \<noteq> ISC_R_SUCCESS then Inl (fst (co_task co))
          else if co_onshutdown co \<noteq> ISC_R_SUCCESS then Inl (co_onshutdown co)
          else if fst (co_timer co) \<noteq> ISC_R_SUCCESS then Inl (fst (co_timer co))
          else if fst (co_message co) \<noteq> ISC_R_SUCCESS then Inl (fst (co_message co))
          else if co_sendbufs co \<noteq> ISC_R_SUCCESS then Inl (co_sendbufs co)
          else if co_query_init co \<noteq> ISC_R_SUCCESS then Inl (co_query_init co)
          else Inr (a, (co_raw co)
                 \<lparr>magic := NS_CLIENT_MAGIC, ctype := typ, state := ns_clientstate_idle,
                  attributes := 0, nsends := 0, task := snd (co_task co), view := None,
                  dispatch := None, dispentry := None, dispevent := None,
                  tcplistener := None, tcpsocket := None,
                  timer := Some (snd (co_timer co)), message := snd (co_message co),
                  sendbufs := 0, nextp := None, trace := []\<rparr>))"

text \<open>
  The loop of \<^verbatim>\<open>ns_clientmgr_addtodispatch\<close>, from the value \<open>i\<close> of the counter:
  the result is the counter, the result code and the server at the end of the loop.
  \<open>cos i\<close> holds the answers to \<^verbatim>\<open>client_create\<close> in the iteration \<open>i\<close>, \<open>ars i\<close>
  the result of \<^verbatim>\<open>dns_dispatch_addrequest\<close> and the entry it returns.
\<close>

function addtodispatch_loop ::
  "(32 word \<Rightarrow> create_outcomes) \<Rightarrow> (32 word \<Rightarrow> isc_result \<times> nat) \<Rightarrow> nat \<Rightarrow> 32 word
    \<Rightarrow> 32 word \<Rightarrow> isc_result \<Rightarrow> server \<Rightarrow> 32 word \<times> isc_result \<times> server" where
  "addtodispatch_loop cos ars d n i result s =
     (if i < n
      then (case client_create (cos i) ns_clienttype_basic of
              Inl r \<Rightarrow> (i, r, s)
            | Inr (a, c) \<Rightarrow>
                let c = c\<lparr>state := ns_clientstate_listening, dispatch := Some d\<rparr>;
                    r = fst (ars i)
                in if r \<noteq> ISC_R_SUCCESS then (i, r, s)
                   else
                     let c = c\<lparr>dispentry := Some (snd (ars i))\<rparr>;
                         s = s\<lparr>manager := (manager s)
                                 \<lparr>nclients := nclients (manager s) + 1,
                                  clients := clients (manager s) @ [a]\<rparr>,
                               store := (store s)(a \<mapsto> c)\<rparr>
                     in addtodispatch_loop cos ars d n (i + 1) r s)
      else (i, result, s))"
  by pat_completeness auto
termination
  apply (relation "measure (\<lambda>(cos, ars, d, n, i, result, s). unat n - unat i)")
   apply simp
  subgoal for cos ars d n i
    using unsigned_less [of n, where ?'a = nat]
    by (simp add: word_less_nat_alt unat_add_lem [THEN iffD1])
  done

declare addtodispatch_loop.simps [simp del]

definition ns_clientmgr_addtodispatch ::
  "(32 word \<Rightarrow> create_outcomes) \<Rightarrow> (32 word \<Rightarrow> isc_result \<times> nat) \<Rightarrow> server \<Rightarrow> 32 word
    \<Rightarrow> nat \<Rightarrow> (isc_result \<times> server) option" where
  "ns_clientmgr_addtodispatch cos ars s n d =
     (if manager_freed s \<or> \<not> VALID_MANAGER (manager s) then None
      else if \<not> 0 < n then None
      else
        let (i, result, s) = addtodispatch_loop cos ars d n 0 ISC_R_SUCCESS s;
            result = (if i \<noteq> 0 then ISC_R_SUCCESS else result)
        in Some (result, s))"

text \<open>
  The loop of \<^verbatim>\<open>ns_clientmgr_accepttcp\<close>; \<open>acs i\<close> holds the answer to
  \<^verbatim>\<open>client_accept\<close> in the iteration \<open>i\<close>.
\<close>

function accepttcp_loop ::
  "(32 word \<Rightarrow> create_outcomes) \<Rightarrow> (32 word \<Rightarrow> outcomes) \<Rightarrow> nat \<Rightarrow> 32 word
    \<Rightarrow> 32 word \<Rightarrow> isc_result \<Rightarrow> server \<Rightarrow> 32 word \<times> isc_result \<times> server" where
  "accepttcp_loop cos acs sock n i result s =
     (if i < n
      then (case client_create (cos i) ns_clienttype_tcp of
              Inl r \<Rightarrow> (i, r, s)
            | Inr (a, c) \<Rightarrow>
                let c = c\<lparr>state := ns_clientstate_listening\<rparr>;
                    c = c\<lparr>attributes := attributes c OR NS_CLIENTATTR_TCP\<rparr>;
                    c = c\<lparr>tcplistener := Some sock\<rparr>;
                    c = client_accept (acs i) c;
                    s = s\<lparr>manager := (manager s)
                            \<lparr>nclients := nclients (manager s) + 1,
                             clients := clients (manager s) @ [a]\<rparr>,
                          store := (store s)(a \<mapsto> c)\<rparr>
                in accepttcp_loop cos acs sock n (i + 1) ISC_R_SUCCESS s)
      else (i, result, s))"
  by pat_completeness auto
termination
  apply (relation "measure (\<lambda>(cos, acs, sock, n, i, result, s). unat n - unat i)")
   apply simp
  subgoal for cos acs sock n i
    using unsigned_less [of n, where ?'a = nat]
    by (simp add: word_less_nat_alt unat_add_lem [THEN iffD1])
  done

declare accepttcp_loop.simps [simp del]

definition ns_clientmgr_accepttcp ::
  "(32 word \<Rightarrow> create_outcomes) \<Rightarrow> (32 word \<Rightarrow> outcomes) \<Rightarrow> server \<Rightarrow> nat \<Rightarrow> 32 word
    \<Rightarrow> (isc_result \<times> server) option" where
  "ns_clientmgr_accepttcp cos acs s sock n =
     (if manager_freed s \<or> \<not> VALID_MANAGER (manager s) then None
      else if \<not> 0 < n then None
      else
        let (i, result, s) = accepttcp_loop cos acs sock n 0 ISC_R_SUCCESS s;
            result = (if i \<noteq> 0 then ISC_R_SUCCESS else result)
        in Some (result, s))"

text \<open>
  The invariant of a manager that is in use: it has not been freed, its magic number is
  in place, its count of clients is the length of its list, no client is in the list
  twice, and every client of the list exists and is valid.
\<close>

definition client_at :: "server \<Rightarrow> nat \<Rightarrow> bool" where
  "client_at s a = (case store s a of None \<Rightarrow> False | Some c \<Rightarrow> NS_CLIENT_VALID c)"

definition mgr_inv :: "server \<Rightarrow> bool" where
  "mgr_inv s =
     (\<not> manager_freed s \<and> VALID_MANAGER (manager s)
      \<and> unat (nclients (manager s)) = length (clients (manager s))
      \<and> distinct (clients (manager s))
      \<and> list_all (client_at s) (clients (manager s)))"

text \<open>
  The same once \<^verbatim>\<open>ns_clientmgr_destroy\<close> has run and until the manager is freed: the
  manager is exiting and not freed, and the list is as before.
\<close>

definition exiting_inv :: "server \<Rightarrow> bool" where
  "exiting_inv s =
     (\<not> manager_freed s \<and> exiting (manager s)
      \<and> unat (nclients (manager s)) = length (clients (manager s))
      \<and> distinct (clients (manager s))
      \<and> list_all (client_at s) (clients (manager s)))"

text \<open>A manager with two clients, at the addresses 10 and 20.\<close>

definition two_clients :: server where
  "two_clients =
     \<lparr>manager = \<lparr>m_magic = MANAGER_MAGIC, exiting = False, nclients = 2,
                  clients = [10, 20]\<rparr>,
      manager_freed = False,
      store = (\<lambda>a. if a = 10 then Some sample_client
                    else if a = 20 then Some sample_tcp_client else None),
      shutdowns = []\<rparr>"

text \<open>
  A manager without clients, answers with which \<^verbatim>\<open>client_create\<close> succeeds (the
  client is placed at address 10), and a run of the libraries in which memory is enough
  for the first client only.
\<close>

definition no_clients :: server where
  "no_clients =
     \<lparr>manager = \<lparr>m_magic = MANAGER_MAGIC, exiting = False, nclients = 0, clients = []\<rparr>,
      manager_freed = False, store = (\<lambda>a. None), shutdowns = []\<rparr>"

definition create_ok :: create_outcomes where
  "create_ok =
     \<lparr>co_mem = Some 10, co_raw = sample_client,
      co_task = (ISC_R_SUCCESS, 1), co_onshutdown = ISC_R_SUCCESS,
      co_timer = (ISC_R_SUCCESS, 9),
      co_message = (ISC_R_SUCCESS,
                    \<lparr>flags = 0, rcode = 0, opcode = dns_opcode_query, rdclass = 0\<rparr>),
      co_sendbufs = ISC_R_SUCCESS, co_query_init = ISC_R_SUCCESS\<rparr>"

definition memory_for_one :: "32 word \<Rightarrow> create_outcomes" where
  "memory_for_one i = (if i = 0 then create_ok else create_ok\<lparr>co_mem := None\<rparr>)"

subsection \<open>Clients between activations\<close>

text \<open>
  The clients that can be met between two activations: a client as
  \<^verbatim>\<open>ns_clientmgr_addtodispatch\<close> or \<^verbatim>\<open>ns_clientmgr_accepttcp\<close> adds it to the list
  (created, then set up as in the body of the loop), and a client that an activation of
  such a client has returned.
\<close>

inductive quiescent :: "ns_client \<Rightarrow> bool" where
  added_to_dispatch:
    "client_create co ns_clienttype_basic = Inr (a, c) \<Longrightarrow>
     quiescent (c\<lparr>state := ns_clientstate_listening, dispatch := Some d,
                  dispentry := Some e\<rparr>)"
| accepting_tcp:
    "client_create co ns_clienttype_tcp = Inr (a, c) \<Longrightarrow>
     quiescent (client_accept oc
       (c\<lparr>state := ns_clientstate_listening,
          attributes := attributes c OR NS_CLIENTATTR_TCP,
          tcplistener := Some sock\<rparr>))"
| activated:
    "quiescent c \<Longrightarrow> activate act c = Some c' \<Longrightarrow> quiescent c'"

code_pred quiescent .

text \<open>A sequence of activations of one client, each on what the one before returned.\<close>

fun run :: "activation list \<Rightarrow> ns_client \<Rightarrow> ns_client option" where
  "run [] c = Some c"
| "run (act # acts) c =
     (case activate act c of None \<Rightarrow> None | Some c' \<Rightarrow> run acts c')"

text \<open>
  Four queries arrive one after the other, and the handler answers each with
  \<^verbatim>\<open>ns_client_send\<close> before any send has completed.
\<close>

definition query_env :: request_env where
  "query_env =
     \<lparr>rq_stdtime = (ISC_R_SUCCESS, 1000),
      rq_parse = (\<lambda>m b. (ISC_R_SUCCESS,
                    \<lparr>flags = 0, rcode = 0, opcode = dns_opcode_query, rdclass = 1\<rparr>)),
      rq_viewlist = [\<lparr>view_name = 0, view_rdclass = 1\<rparr>]\<rparr>"

definition one_query :: "activation list" where
  "one_query =
     [On_request query_env all_success all_success 1 peer_event,
      Handler_send all_success]"

definition four_queries :: "activation list" where
  "four_queries = one_query @ one_query @ one_query @ one_query"

text \<open>
  The count of sends and the pool agree: every send outstanding holds one buffer of the
  pool, and the pool hands out \<^verbatim>\<open>maxalloc\<close> buffers at most.
\<close>

definition pool_inv :: "ns_client \<Rightarrow> bool" where
  "pool_inv c = (nsends c = int (sendbufs c) \<and> sendbufs c \<le> SENDBUFS_MAXALLOC)"

text \<open>A manager that is exiting with one client left, at address 10.\<close>

definition last_client :: server where
  "last_client =
     \<lparr>manager = \<lparr>m_magic = MANAGER_MAGIC, exiting = True, nclients = 1, clients = [10]\<rparr>,
      manager_freed = False,
      store = (\<lambda>a. if a = 10 then Some sample_client else None),
      shutdowns = [10]\<rparr>"

section \<open>Properties\<close>

subsection \<open>Basic facts\<close>

lemma emit_simps [simp]:
  "trace (emit es c) = trace c @ es"
  "state (emit es c) = state c"
  "nsends (emit es c) = nsends c"
  "sendbufs (emit es c) = sendbufs c"
  "magic (emit es c) = magic c"
  "attributes (emit es c) = attributes c"
  "dispevent (emit es c) = dispevent c"
  "tcpsocket (emit es c) = tcpsocket c"
  "message (emit es c) = message c"
  "nextp (emit es c) = nextp c"
  "view (emit es c) = view c"
  "task (emit es c) = task c"
  "timer (emit es c) = timer c"
  "dispentry (emit es c) = dispentry c"
  by (simp_all add: emit_def)

lemma extends_iff: "extends P c c' = (\<exists>es. trace c' = trace c @ es \<and> list_all P es)"
proof
  assume "extends P c c'"
  then have "trace c' = trace c @ drop (length (trace c)) (trace c')"
    and "list_all P (drop (length (trace c)) (trace c'))"
    unfolding extends_def by (metis append_take_drop_id, simp)
  then show "\<exists>es. trace c' = trace c @ es \<and> list_all P es"
    by blast
next
  assume "\<exists>es. trace c' = trace c @ es \<and> list_all P es"
  then show "extends P c c'"
    by (auto simp: extends_def)
qed

lemma valid_emit [simp]: "NS_CLIENT_VALID (emit es c) = NS_CLIENT_VALID c"
  by (simp add: NS_CLIENT_VALID_def)

lemma tcp_emit [simp]: "TCP_CLIENT (emit es c) = TCP_CLIENT c"
  by (simp add: TCP_CLIENT_def)

lemmas sample_defs =
  sample_client_def sample_tcp_client_def all_success_def sample_torcode_def
  NS_CLIENT_VALID_def NS_CLIENT_MAGIC_def NS_CLIENTATTR_TCP_def TCP_CLIENT_def
  DNS_MESSAGEFLAG_QR_def emit_def

subsection \<open>ns\_client\_next with a failure, and client\_read\<close>

lemma next_failure:
  assumes "result \<noteq> ISC_R_SUCCESS" and "ns_client_next oc c result = Some c'"
  shows "state c' \<noteq> ns_clientstate_waiting \<and> state c' \<noteq> ns_clientstate_reading
     \<and> nsends c' = nsends c \<and> sendbufs c' = sendbufs c
     \<and> magic c' = magic c \<and> extends next_event c c'"
  using assms
  apply (subst (asm) ns_client_next.simps)
  apply (auto simp: Let_def client_accept_def extends_iff TCP_CLIENT_def NS_CLIENT_VALID_def
              split: if_splits option.splits)
  done

lemma next_failure_reads:
  assumes "result \<noteq> ISC_R_SUCCESS" and "ns_client_next oc c result = Some c'"
  shows "registered_reads c' = registered_reads c"
  using assms
  apply (subst (asm) ns_client_next.simps)
  apply (auto simp: Let_def client_accept_def registered_reads_def
              split: if_splits option.splits)
  done

lemma next_failure_returns:
  assumes "result \<noteq> ISC_R_SUCCESS" and "NS_CLIENT_VALID c"
    and "state c = ns_clientstate_listening \<or> state c = ns_clientstate_working"
  shows "\<exists>c'. ns_client_next oc c result = Some c'"
  using assms
  apply (subst ns_client_next.simps)
  apply (auto simp: Let_def split: if_splits option.splits)
  done

text \<open>
  C10.  Whenever \<^verbatim>\<open>client_read\<close> returns, the state of the client is reading.  When
  the read is registered, that is all it does.  When registering the read fails with a
  result \<open>r\<close>, \<^verbatim>\<open>ns_client_next(client, r)\<close> runs first and the state it leaves is
  overwritten with reading, although no read has been registered by the call; the call
  returns whenever the client is valid and listening or working (so that the
  \<^verbatim>\<open>REQUIRE\<close> of \<^verbatim>\<open>ns_client_next\<close> holds).
\<close>

theorem client_read_state_reading:
  "(\<forall>c'. client_read oc c = Some c' \<longrightarrow> state c' = ns_clientstate_reading)
   \<and> (o_readmessage oc = ISC_R_SUCCESS \<longrightarrow>
        client_read oc c =
          Some ((emit [Ext_readmessage ISC_R_SUCCESS] c)\<lparr>state := ns_clientstate_reading\<rparr>))
   \<and> (o_readmessage oc \<noteq> ISC_R_SUCCESS \<longrightarrow>
        client_read oc c =
          map_option (\<lambda>c1. c1\<lparr>state := ns_clientstate_reading\<rparr>)
            (ns_client_next oc (emit [Ext_readmessage (o_readmessage oc)] c) (o_readmessage oc))
        \<and> (\<forall>c'. client_read oc c = Some c' \<longrightarrow> registered_reads c' = registered_reads c)
        \<and> (NS_CLIENT_VALID c
             \<and> (state c = ns_clientstate_listening \<or> state c = ns_clientstate_working)
             \<longrightarrow> (\<exists>c'. client_read oc c = Some c')))"
proof (intro conjI impI allI)
  fix c' assume "client_read oc c = Some c'"
  then show "state c' = ns_clientstate_reading"
    by (subst (asm) client_read.simps) (auto simp: Let_def split: option.splits if_splits)
next
  assume "o_readmessage oc = ISC_R_SUCCESS"
  then show "client_read oc c =
      Some ((emit [Ext_readmessage ISC_R_SUCCESS] c)\<lparr>state := ns_clientstate_reading\<rparr>)"
    by (subst client_read.simps) (simp add: Let_def)
next
  assume f: "o_readmessage oc \<noteq> ISC_R_SUCCESS"
  show eq: "client_read oc c =
      map_option (\<lambda>c1. c1\<lparr>state := ns_clientstate_reading\<rparr>)
        (ns_client_next oc (emit [Ext_readmessage (o_readmessage oc)] c) (o_readmessage oc))"
    using f by (subst client_read.simps) (simp add: Let_def split: option.splits)
  {
    fix c' assume "client_read oc c = Some c'"
    from this [unfolded eq] obtain c1 where
      n: "ns_client_next oc (emit [Ext_readmessage (o_readmessage oc)] c)
            (o_readmessage oc) = Some c1"
      and c': "c' = c1\<lparr>state := ns_clientstate_reading\<rparr>"
      by auto
    from next_failure_reads [OF f n] f
    show "registered_reads c' = registered_reads c"
      by (simp add: c' registered_reads_def)
  }
  {
    assume "NS_CLIENT_VALID c
      \<and> (state c = ns_clientstate_listening \<or> state c = ns_clientstate_working)"
    then obtain c1 where "ns_client_next oc (emit [Ext_readmessage (o_readmessage oc)] c)
        (o_readmessage oc) = Some c1"
      using next_failure_returns [OF f, of "emit [Ext_readmessage (o_readmessage oc)] c" oc]
      by auto
    then show "\<exists>c'. client_read oc c = Some c'"
      by (simp add: eq)
  }
qed

theorem client_read_state_reading_witness:
  "o_readmessage (all_success\<lparr>o_readmessage := ISC_R_TIMEDOUT\<rparr>) \<noteq> ISC_R_SUCCESS
   \<and> NS_CLIENT_VALID sample_tcp_client
   \<and> state sample_tcp_client = ns_clientstate_working
   \<and> client_read (all_success\<lparr>o_readmessage := ISC_R_TIMEDOUT\<rparr>) sample_tcp_client =
       Some (sample_tcp_client
         \<lparr>state := ns_clientstate_reading, tcpsocket := None,
          trace := [Ext_readmessage ISC_R_TIMEDOUT, Call_next ISC_R_TIMEDOUT,
                    Ext_message_reset, Ext_tcpmsg_invalidate, Ext_socket_detach,
                    Ext_accept ISC_R_SUCCESS]\<rparr>)
   \<and> registered_reads (the (client_read (all_success\<lparr>o_readmessage := ISC_R_TIMEDOUT\<rparr>)
         sample_tcp_client)) = registered_reads sample_tcp_client
   \<and> o_readmessage all_success = ISC_R_SUCCESS
   \<and> client_read all_success sample_tcp_client =
       Some (sample_tcp_client
         \<lparr>state := ns_clientstate_reading,
          trace := [Ext_readmessage ISC_R_SUCCESS]\<rparr>)"
  using client_read_state_reading
    [of "all_success\<lparr>o_readmessage := ISC_R_TIMEDOUT\<rparr>" sample_tcp_client]
    client_read_state_reading [of all_success sample_tcp_client]
  by (simp add: sample_defs ns_client_next.simps client_accept_def Let_def registered_reads_def)

subsection \<open>What ns\_client\_next, ns\_client\_send and ns\_client\_error leave\<close>

lemma extends_refl [simp]: "extends P c c"
  by (simp add: extends_iff)

lemma extends_trans: "extends P a b \<Longrightarrow> extends P b c \<Longrightarrow> extends P a c"
  by (auto simp: extends_iff)

lemma extends_mono: "extends P a b \<Longrightarrow> (\<And>e. P e \<Longrightarrow> Q e) \<Longrightarrow> extends Q a b"
  by (auto simp: extends_iff list_all_iff)

lemma extends_emit_left: "extends P (emit es a) b \<Longrightarrow> list_all P es \<Longrightarrow> extends P a b"
  by (auto simp: extends_iff)

lemma extends_state_update [simp]:
  "extends P a (b\<lparr>state := s\<rparr>) = extends P a b"
  by (simp add: extends_iff)

lemma client_read_props:
  assumes "client_read oc c = Some c'"
  shows "state c' = ns_clientstate_reading \<and> nsends c' = nsends c \<and> sendbufs c' = sendbufs c
     \<and> magic c' = magic c \<and> extends next_event c c'"
proof (cases "o_readmessage oc = ISC_R_SUCCESS")
  case True
  with assms show ?thesis
    by (subst (asm) client_read.simps) (auto simp: Let_def extends_iff)
next
  case False
  with assms obtain c1 where
    n: "ns_client_next oc (emit [Ext_readmessage (o_readmessage oc)] c) (o_readmessage oc) = Some c1"
    and c': "c' = c1\<lparr>state := ns_clientstate_reading\<rparr>"
    by (subst (asm) client_read.simps) (auto simp: Let_def split: option.splits)
  from next_failure [OF False n]
  have "extends next_event (emit [Ext_readmessage (o_readmessage oc)] c) c1"
    and "nsends c1 = nsends c" "sendbufs c1 = sendbufs c" "magic c1 = magic c"
    by simp_all
  then show ?thesis
    by (auto simp: c' intro: extends_emit_left)
qed

lemma next_props:
  assumes "ns_client_next oc c result = Some c'"
  shows "state c' \<noteq> ns_clientstate_waiting \<and> nsends c' = nsends c \<and> sendbufs c' = sendbufs c
     \<and> magic c' = magic c \<and> extends next_event c c'"
proof (cases "result = ISC_R_SUCCESS")
  case False
  from next_failure [OF False assms] show ?thesis by simp
next
  case True
  show ?thesis
    using assms unfolding True
    apply (subst (asm) ns_client_next.simps)
    apply (auto simp: Let_def extends_iff split: if_splits option.splits dest!: client_read_props)
    done
qed

lemma next_send_event: "next_event e \<Longrightarrow> send_event e"
  by (cases e) simp_all

lemma next_events_send: "list_all next_event es \<Longrightarrow> list_all send_event es"
  by (auto simp: list_all_iff intro: next_send_event)

lemma send_render_props:
  assumes "send_render oc c = (c1, r)"
  shows "magic c1 = magic c \<and> state c1 = state c \<and> sendbufs c1 = sendbufs c
     \<and> nsends c1 = (if r = ISC_R_SUCCESS then nsends c + 1 else nsends c)
     \<and> (\<exists>es. trace c1 = trace c @ es \<and> list_all transmit_event es)"
  using assms
  unfolding send_render_def Let_def
  by (auto split: if_splits)

lemma transmit_send_event: "transmit_event e \<Longrightarrow> send_event e"
  by (cases e) simp_all

lemma transmit_events_send: "list_all transmit_event es \<Longrightarrow> list_all send_event es"
  by (auto simp: list_all_iff intro: transmit_send_event)

lemma send_props:
  assumes "ns_client_send oc c = Some c'"
  shows "(state c' = ns_clientstate_waiting \<longrightarrow> 0 < nsends c') \<and> magic c' = magic c
     \<and> extends send_event c c'"
proof (cases "fst (isc_mempool_get (o_mem oc) (sendbufs c))")
  case False
  with assms show ?thesis
    unfolding ns_client_send_def Let_def
    apply (simp split: if_splits prod.splits)
     apply (auto simp: extends_iff next_events_send dest!: next_props)
    done
next
  case True
  obtain n where g: "isc_mempool_get (o_mem oc) (sendbufs c) = (True, n)"
    using True by (cases "isc_mempool_get (o_mem oc) (sendbufs c)") auto
  obtain c1 r where sr: "send_render oc ((emit [Call_send, Ext_mempool_get True] c)
      \<lparr>sendbufs := n\<rparr>) = (c1, r)"
    by (cases "send_render oc ((emit [Call_send, Ext_mempool_get True] c)\<lparr>sendbufs := n\<rparr>)")
  from send_render_props [OF sr] obtain es where
    c1: "magic c1 = magic c" "trace c1 = trace c @ Call_send # Ext_mempool_get True # es"
      "list_all transmit_event es"
    by auto
  from assms g sr have "send_done oc c1 r = Some c'"
    by (simp add: ns_client_send_def Let_def emit_def split: if_splits)
  then show ?thesis
    using c1
    by (auto simp: send_done_def Let_def extends_iff next_events_send transmit_events_send
             split: if_splits dest!: next_props)
qed

lemma send_event_not_error: "send_event e \<Longrightarrow> \<not> call_error_event e"
  by (cases e) simp_all

lemma next_event_not_error: "next_event e \<Longrightarrow> \<not> call_error_event e"
  by (cases e) simp_all

lemma next_event_not_transmit: "next_event e \<Longrightarrow> \<not> transmit_event e"
  by (cases e) simp_all

lemma send_events_not_error:
  "list_all send_event es \<Longrightarrow> list_all (\<lambda>e. \<not> call_error_event e) es"
  by (auto simp: list_all_iff dest: send_event_not_error)

lemma next_events_not_error:
  "list_all next_event es \<Longrightarrow> list_all (\<lambda>e. \<not> call_error_event e) es"
  by (auto simp: list_all_iff dest: next_event_not_error)

lemma next_events_not_transmit:
  "list_all next_event es \<Longrightarrow> list_all (\<lambda>e. \<not> transmit_event e) es"
  by (auto simp: list_all_iff dest: next_event_not_transmit)

lemma error_props:
  assumes "ns_client_error oc c result = Some c'"
  shows "(state c' = ns_clientstate_waiting \<longrightarrow> 0 < nsends c') \<and> magic c' = magic c
     \<and> (\<exists>es. trace c' = trace c @ Call_error result # es
            \<and> list_all (\<lambda>e. \<not> call_error_event e) es)"
  using assms
  unfolding ns_client_error_def Let_def
  apply (simp split: if_splits prod.splits)
  apply (auto simp: extends_iff send_events_not_error next_events_not_error
              dest!: next_props send_props)
  done

lemma transmit_not_call_next: "transmit_event e \<Longrightarrow> \<not> call_next_event e"
  by (cases e) simp_all

lemma send_tail:
  assumes "NS_CLIENT_VALID c"
    and "fst (isc_mempool_get (o_mem oc) (sendbufs c)) \<or> \<not> 0 < nsends c"
  shows "\<exists>c1 r. ns_client_send oc c = ns_client_next oc c1 r \<and> NS_CLIENT_VALID c1
            \<and> state c1 = state c \<and> extends (\<lambda>e. \<not> call_next_event e) c c1"
proof (cases "fst (isc_mempool_get (o_mem oc) (sendbufs c))")
  case False
  with assms have "ns_client_send oc c =
      ns_client_next oc (c\<lparr>trace := trace c @ [Call_send, Ext_mempool_get False]\<rparr>)
        ISC_R_NOMEMORY"
    by (auto simp: ns_client_send_def Let_def isc_mempool_get_def emit_def split: if_splits)
  moreover have "NS_CLIENT_VALID (c\<lparr>trace := trace c @ [Call_send, Ext_mempool_get False]\<rparr>)"
    using assms(1) by (simp add: NS_CLIENT_VALID_def)
  moreover have "extends (\<lambda>e. \<not> call_next_event e) c
      (c\<lparr>trace := trace c @ [Call_send, Ext_mempool_get False]\<rparr>)"
    by (simp add: extends_iff)
  ultimately show ?thesis
    by (intro exI [of _ "c\<lparr>trace := trace c @ [Call_send, Ext_mempool_get False]\<rparr>"]
          exI [of _ ISC_R_NOMEMORY]) simp
next
  case True
  obtain n where g: "isc_mempool_get (o_mem oc) (sendbufs c) = (True, n)"
    using True by (cases "isc_mempool_get (o_mem oc) (sendbufs c)") auto
  obtain c1 r where sr: "send_render oc ((emit [Call_send, Ext_mempool_get True] c)
      \<lparr>sendbufs := n\<rparr>) = (c1, r)"
    by (cases "send_render oc ((emit [Call_send, Ext_mempool_get True] c)\<lparr>sendbufs := n\<rparr>)")
  from send_render_props [OF sr] obtain es where
    c1: "magic c1 = magic c" "state c1 = state c"
      "trace c1 = trace c @ Call_send # Ext_mempool_get True # es"
      "list_all transmit_event es"
    by auto
  let ?c2 = "if r \<noteq> ISC_R_SUCCESS
             then (emit [Ext_mempool_put] c1)\<lparr>sendbufs := isc_mempool_put (sendbufs c1)\<rparr>
             else c1"
  from assms(1) g sr have "ns_client_send oc c = ns_client_next oc ?c2 r"
    by (simp add: ns_client_send_def send_done_def Let_def emit_def)
  moreover have "NS_CLIENT_VALID ?c2"
    using assms(1) c1 by (simp add: NS_CLIENT_VALID_def)
  moreover have "state ?c2 = state c"
    using c1 by simp
  moreover have "list_all (\<lambda>e. \<not> call_next_event e) es"
    using c1(4) by (auto simp: list_all_iff dest: transmit_not_call_next)
  then have "extends (\<lambda>e. \<not> call_next_event e) c ?c2"
    using c1 by (simp add: extends_iff)
  ultimately show ?thesis
    by blast
qed

text \<open>
  C3, as amended.  \<^verbatim>\<open>ns_client_send\<close> on a valid client that obtains a buffer from
  the pool, or that obtains none while no send is outstanding, ends with a call of
  \<^verbatim>\<open>ns_client_next\<close> and makes no call of \<^verbatim>\<open>ns_client_next\<close> before that one.  A
  call that obtains no buffer while a send is outstanding does not call
  \<^verbatim>\<open>ns_client_next\<close>: a working client goes waiting and the call returns (the
  \<^verbatim>\<open>INSIST\<close> aborts for a client that is not working).
\<close>

theorem send_calls_next_last:
  assumes "NS_CLIENT_VALID c"
  shows "(fst (isc_mempool_get (o_mem oc) (sendbufs c)) \<or> \<not> 0 < nsends c \<longrightarrow>
            (\<exists>c1 r. ns_client_send oc c = ns_client_next oc c1 r \<and> NS_CLIENT_VALID c1
               \<and> state c1 = state c \<and> extends (\<lambda>e. \<not> call_next_event e) c c1))
       \<and> (\<not> fst (isc_mempool_get (o_mem oc) (sendbufs c)) \<and> 0 < nsends c \<longrightarrow>
            ns_client_send oc c =
              (if state c = ns_clientstate_working
               then Some (c\<lparr>state := ns_clientstate_waiting,
                            trace := trace c @ [Call_send, Ext_mempool_get False]\<rparr>)
               else None))"
proof (intro conjI impI)
  assume "fst (isc_mempool_get (o_mem oc) (sendbufs c)) \<or> \<not> 0 < nsends c"
  with assms show "\<exists>c1 r. ns_client_send oc c = ns_client_next oc c1 r \<and> NS_CLIENT_VALID c1
               \<and> state c1 = state c \<and> extends (\<lambda>e. \<not> call_next_event e) c c1"
    by (rule send_tail)
next
  assume "\<not> fst (isc_mempool_get (o_mem oc) (sendbufs c)) \<and> 0 < nsends c"
  with assms show "ns_client_send oc c =
              (if state c = ns_clientstate_working
               then Some (c\<lparr>state := ns_clientstate_waiting,
                            trace := trace c @ [Call_send, Ext_mempool_get False]\<rparr>)
               else None)"
    by (auto simp: ns_client_send_def Let_def isc_mempool_get_def emit_def split: if_splits)
qed

text \<open>
  C3 as stated fails: with all three buffers of the pool handed out and three sends
  outstanding, \<^verbatim>\<open>ns_client_send\<close> returns without a call of \<^verbatim>\<open>ns_client_next\<close>.
\<close>

theorem send_without_next_counterexample:
  "NS_CLIENT_VALID busy_client \<and>
   ns_client_send all_success busy_client =
     Some (busy_client\<lparr>state := ns_clientstate_waiting,
             trace := [Call_send, Ext_mempool_get False]\<rparr>)
   \<and> filter call_next_event [Call_send, Ext_mempool_get False] = []"
  by (simp add: busy_client_def working_client_def sample_defs ns_client_send_def isc_mempool_get_def
        SENDBUFS_MAXALLOC_def Let_def)

lemma send_pool_empty_quiet:
  assumes "\<not> fst (isc_mempool_get (o_mem oc) (sendbufs c))"
    and "ns_client_send oc c = Some c'"
  shows "extends (\<lambda>e. \<not> transmit_event e) c c'"
  using assms
  unfolding ns_client_send_def Let_def
  apply (simp split: prod.splits if_splits)
  apply (auto simp: extends_iff next_events_not_transmit dest!: next_props)
  done

text \<open>
  C4.  \<^verbatim>\<open>ns_client_send\<close> on a valid client when the pool gives no buffer.  With a
  send outstanding, a working client goes waiting, and \<^verbatim>\<open>client_senddone\<close> on that
  waiting client is \<^verbatim>\<open>ns_client_send\<close> again, on the client back at work with one
  send less and the buffer of the completed send returned.  With no send outstanding,
  the call is \<^verbatim>\<open>ns_client_next(client, ISC_R_NOMEMORY)\<close>.  In both cases the call
  adds no rendering and no send to the trace.
\<close>

theorem send_pool_empty:
  assumes "NS_CLIENT_VALID c" and "\<not> fst (isc_mempool_get (o_mem oc) (sendbufs c))"
  shows "(0 < nsends c \<and> state c = ns_clientstate_working \<longrightarrow>
            ns_client_send oc c =
              Some (c\<lparr>state := ns_clientstate_waiting,
                      trace := trace c @ [Call_send, Ext_mempool_get False]\<rparr>)
            \<and> client_senddone oc' (task c) ISC_SOCKEVENT_SENDDONE
                 (c\<lparr>state := ns_clientstate_waiting,
                    trace := trace c @ [Call_send, Ext_mempool_get False]\<rparr>) =
               ns_client_send oc'
                 (c\<lparr>state := ns_clientstate_working, nsends := nsends c - 1,
                    sendbufs := isc_mempool_put (sendbufs c),
                    trace := trace c @ [Call_send, Ext_mempool_get False, Ext_mempool_put]\<rparr>))
       \<and> (\<not> 0 < nsends c \<longrightarrow>
            ns_client_send oc c =
              ns_client_next oc (c\<lparr>trace := trace c @ [Call_send, Ext_mempool_get False]\<rparr>)
                ISC_R_NOMEMORY)
       \<and> (\<forall>c'. ns_client_send oc c = Some c' \<longrightarrow> extends (\<lambda>e. \<not> transmit_event e) c c')"
proof (intro conjI impI allI)
  assume a: "0 < nsends c \<and> state c = ns_clientstate_working"
  with assms show "ns_client_send oc c =
              Some (c\<lparr>state := ns_clientstate_waiting,
                      trace := trace c @ [Call_send, Ext_mempool_get False]\<rparr>)"
    by (auto simp: ns_client_send_def Let_def isc_mempool_get_def emit_def split: if_splits)
  from assms a show "client_senddone oc' (task c) ISC_SOCKEVENT_SENDDONE
                 (c\<lparr>state := ns_clientstate_waiting,
                    trace := trace c @ [Call_send, Ext_mempool_get False]\<rparr>) =
               ns_client_send oc'
                 (c\<lparr>state := ns_clientstate_working, nsends := nsends c - 1,
                    sendbufs := isc_mempool_put (sendbufs c),
                    trace := trace c @ [Call_send, Ext_mempool_get False, Ext_mempool_put]\<rparr>)"
    apply (simp add: client_senddone_def Let_def emit_def NS_CLIENT_VALID_def)
    apply (rule arg_cong [where f = "ns_client_send oc'"])
    apply (rule ns_client.equality; simp)
    done
next
  assume "\<not> 0 < nsends c"
  with assms show "ns_client_send oc c =
              ns_client_next oc (c\<lparr>trace := trace c @ [Call_send, Ext_mempool_get False]\<rparr>)
                ISC_R_NOMEMORY"
    by (auto simp: ns_client_send_def Let_def isc_mempool_get_def emit_def split: if_splits)
next
  fix c' assume "ns_client_send oc c = Some c'"
  with assms(2) show "extends (\<lambda>e. \<not> transmit_event e) c c'"
    by (rule send_pool_empty_quiet)
qed

lemma qr_cleared_flags: "flags (qr_cleared m) AND DNS_MESSAGEFLAG_QR = 0"
  by (simp add: qr_cleared_def and.assoc)

lemma error_unsendable_quiet:
  assumes "fst (first_reply oc c) \<noteq> ISC_R_SUCCESS" and "fst (second_reply oc c) \<noteq> ISC_R_SUCCESS"
    and "ns_client_error oc c result = Some c'"
  shows "extends (\<lambda>e. \<not> transmit_event e) c c'"
  using assms
  unfolding ns_client_error_def Let_def first_reply_def second_reply_def qr_cleared_def
  apply (simp split: prod.splits if_splits)
  apply (auto simp: extends_iff next_events_not_transmit dest!: next_props)
  done

text \<open>
  C5.  \<^verbatim>\<open>ns_client_error\<close> on a valid client: the message handed to the first
  \<^verbatim>\<open>dns_message_reply\<close> has the QR flag clear; when that call (which keeps the
  question section) succeeds, or else when the second call (which drops it) succeeds,
  the \<^verbatim>\<open>rcode\<close> of the message becomes the one mapped from the result given to
  \<^verbatim>\<open>ns_client_error\<close> and \<^verbatim>\<open>ns_client_send\<close> is called; when both fail,
  \<^verbatim>\<open>ns_client_next\<close> is called with the result of the second call, and nothing is
  rendered or sent.
\<close>

theorem error_reply_then_send:
  assumes "NS_CLIENT_VALID c"
  shows "flags (qr_cleared (message c)) AND DNS_MESSAGEFLAG_QR = 0
     \<and> (fst (first_reply oc c) = ISC_R_SUCCESS \<longrightarrow>
          ns_client_error oc c result =
            ns_client_send oc
              (c\<lparr>message := (snd (first_reply oc c))\<lparr>rcode := o_torcode oc result\<rparr>,
                 trace := trace c @
                   [Call_error result,
                    Ext_reply True (flags (qr_cleared (message c))) ISC_R_SUCCESS]\<rparr>))
     \<and> (fst (first_reply oc c) \<noteq> ISC_R_SUCCESS \<and> fst (second_reply oc c) = ISC_R_SUCCESS \<longrightarrow>
          ns_client_error oc c result =
            ns_client_send oc
              (c\<lparr>message := (snd (second_reply oc c))\<lparr>rcode := o_torcode oc result\<rparr>,
                 trace := trace c @
                   [Call_error result,
                    Ext_reply True (flags (qr_cleared (message c))) (fst (first_reply oc c)),
                    Ext_reply False (flags (snd (first_reply oc c))) ISC_R_SUCCESS]\<rparr>))
     \<and> (fst (first_reply oc c) \<noteq> ISC_R_SUCCESS \<and> fst (second_reply oc c) \<noteq> ISC_R_SUCCESS \<longrightarrow>
          ns_client_error oc c result =
            ns_client_next oc
              (c\<lparr>message := snd (second_reply oc c),
                 trace := trace c @
                   [Call_error result,
                    Ext_reply True (flags (qr_cleared (message c))) (fst (first_reply oc c)),
                    Ext_reply False (flags (snd (first_reply oc c)))
                      (fst (second_reply oc c))]\<rparr>)
              (fst (second_reply oc c))
          \<and> (\<forall>c'. ns_client_error oc c result = Some c' \<longrightarrow>
                 extends (\<lambda>e. \<not> transmit_event e) c c'))"
proof (intro conjI impI allI)
  show "flags (qr_cleared (message c)) AND DNS_MESSAGEFLAG_QR = 0"
    by (rule qr_cleared_flags)
next
  assume "fst (first_reply oc c) = ISC_R_SUCCESS"
  with assms show "ns_client_error oc c result =
            ns_client_send oc
              (c\<lparr>message := (snd (first_reply oc c))\<lparr>rcode := o_torcode oc result\<rparr>,
                 trace := trace c @
                   [Call_error result,
                    Ext_reply True (flags (qr_cleared (message c))) ISC_R_SUCCESS]\<rparr>)"
    apply (simp add: ns_client_error_def Let_def first_reply_def qr_cleared_def emit_def
          case_prod_beta)
    apply (rule arg_cong [where f = "ns_client_send oc"])
    apply (rule ns_client.equality; simp)
    done
next
  assume "fst (first_reply oc c) \<noteq> ISC_R_SUCCESS \<and> fst (second_reply oc c) = ISC_R_SUCCESS"
  with assms show "ns_client_error oc c result =
            ns_client_send oc
              (c\<lparr>message := (snd (second_reply oc c))\<lparr>rcode := o_torcode oc result\<rparr>,
                 trace := trace c @
                   [Call_error result,
                    Ext_reply True (flags (qr_cleared (message c))) (fst (first_reply oc c)),
                    Ext_reply False (flags (snd (first_reply oc c))) ISC_R_SUCCESS]\<rparr>)"
    apply (simp add: ns_client_error_def Let_def first_reply_def second_reply_def
          qr_cleared_def emit_def case_prod_beta)
    apply (rule arg_cong [where f = "ns_client_send oc"])
    apply (rule ns_client.equality; simp)
    done
next
  assume a: "fst (first_reply oc c) \<noteq> ISC_R_SUCCESS \<and> fst (second_reply oc c) \<noteq> ISC_R_SUCCESS"
  with assms show "ns_client_error oc c result =
            ns_client_next oc
              (c\<lparr>message := snd (second_reply oc c),
                 trace := trace c @
                   [Call_error result,
                    Ext_reply True (flags (qr_cleared (message c))) (fst (first_reply oc c)),
                    Ext_reply False (flags (snd (first_reply oc c)))
                      (fst (second_reply oc c))]\<rparr>)
              (fst (second_reply oc c))"
    apply (simp add: ns_client_error_def Let_def first_reply_def second_reply_def
          qr_cleared_def emit_def case_prod_beta)
    apply (rule arg_cong [where f = "\<lambda>x. ns_client_next oc x (fst (second_reply oc c))",
            unfolded first_reply_def second_reply_def qr_cleared_def])
    apply (rule ns_client.equality; simp)
    done
  fix c' assume "ns_client_error oc c result = Some c'"
  with a show "extends (\<lambda>e. \<not> transmit_event e) c c'"
    by (auto intro: error_unsendable_quiet)
qed


text \<open>
  C6.  \<^verbatim>\<open>ns_client_send\<close> on a valid client that has obtained a buffer: the calls of
  the renderer are, in this order, begin, question, answer, authority, additional, end.
  The first of them that fails (for the additional section: fails with a result other
  than \<^verbatim>\<open>ISC_R_NOSPACE\<close>) ends the rendering: the buffer goes back to the pool and
  \<^verbatim>\<open>ns_client_next\<close> is called with that result.  After \<^verbatim>\<open>ISC_R_NOSPACE\<close> from
  the additional section the rendering goes on to \<^verbatim>\<open>dns_message_renderend\<close> and,
  when that succeeds, to the send.
\<close>

theorem send_render_order:
  assumes "NS_CLIENT_VALID c" and "isc_mempool_get (o_mem oc) (sendbufs c) = (True, n)"
  shows
  "(o_renderbegin oc \<noteq> ISC_R_SUCCESS \<longrightarrow>
      ns_client_send oc c =
        ns_client_next oc (released [Ext_renderbegin (o_renderbegin oc)] (acquired c n))
          (o_renderbegin oc))
   \<and> (o_renderbegin oc = ISC_R_SUCCESS \<and> o_question oc \<noteq> ISC_R_SUCCESS \<longrightarrow>
      ns_client_send oc c =
        ns_client_next oc
          (released [Ext_renderbegin ISC_R_SUCCESS,
                     Ext_rendersection DNS_SECTION_QUESTION (o_question oc)] (acquired c n))
          (o_question oc))
   \<and> (o_renderbegin oc = ISC_R_SUCCESS \<and> o_question oc = ISC_R_SUCCESS
        \<and> o_answer oc \<noteq> ISC_R_SUCCESS \<longrightarrow>
      ns_client_send oc c =
        ns_client_next oc
          (released [Ext_renderbegin ISC_R_SUCCESS,
                     Ext_rendersection DNS_SECTION_QUESTION ISC_R_SUCCESS,
                     Ext_rendersection DNS_SECTION_ANSWER (o_answer oc)] (acquired c n))
          (o_answer oc))
   \<and> (o_renderbegin oc = ISC_R_SUCCESS \<and> o_question oc = ISC_R_SUCCESS
        \<and> o_answer oc = ISC_R_SUCCESS \<and> o_authority oc \<noteq> ISC_R_SUCCESS \<longrightarrow>
      ns_client_send oc c =
        ns_client_next oc
          (released [Ext_renderbegin ISC_R_SUCCESS,
                     Ext_rendersection DNS_SECTION_QUESTION ISC_R_SUCCESS,
                     Ext_rendersection DNS_SECTION_ANSWER ISC_R_SUCCESS,
                     Ext_rendersection DNS_SECTION_AUTHORITY (o_authority oc)] (acquired c n))
          (o_authority oc))
   \<and> (o_renderbegin oc = ISC_R_SUCCESS \<and> o_question oc = ISC_R_SUCCESS
        \<and> o_answer oc = ISC_R_SUCCESS \<and> o_authority oc = ISC_R_SUCCESS
        \<and> o_additional oc \<noteq> ISC_R_SUCCESS \<and> o_additional oc \<noteq> ISC_R_NOSPACE \<longrightarrow>
      ns_client_send oc c =
        ns_client_next oc
          (released [Ext_renderbegin ISC_R_SUCCESS,
                     Ext_rendersection DNS_SECTION_QUESTION ISC_R_SUCCESS,
                     Ext_rendersection DNS_SECTION_ANSWER ISC_R_SUCCESS,
                     Ext_rendersection DNS_SECTION_AUTHORITY ISC_R_SUCCESS,
                     Ext_rendersection DNS_SECTION_ADDITIONAL (o_additional oc)] (acquired c n))
          (o_additional oc))
   \<and> (o_renderbegin oc = ISC_R_SUCCESS \<and> o_question oc = ISC_R_SUCCESS
        \<and> o_answer oc = ISC_R_SUCCESS \<and> o_authority oc = ISC_R_SUCCESS
        \<and> (o_additional oc = ISC_R_SUCCESS \<or> o_additional oc = ISC_R_NOSPACE)
        \<and> o_renderend oc \<noteq> ISC_R_SUCCESS \<longrightarrow>
      ns_client_send oc c =
        ns_client_next oc
          (released [Ext_renderbegin ISC_R_SUCCESS,
                     Ext_rendersection DNS_SECTION_QUESTION ISC_R_SUCCESS,
                     Ext_rendersection DNS_SECTION_ANSWER ISC_R_SUCCESS,
                     Ext_rendersection DNS_SECTION_AUTHORITY ISC_R_SUCCESS,
                     Ext_rendersection DNS_SECTION_ADDITIONAL (o_additional oc),
                     Ext_renderend (o_renderend oc)] (acquired c n))
          (o_renderend oc))
   \<and> (o_renderbegin oc = ISC_R_SUCCESS \<and> o_question oc = ISC_R_SUCCESS
        \<and> o_answer oc = ISC_R_SUCCESS \<and> o_authority oc = ISC_R_SUCCESS
        \<and> (o_additional oc = ISC_R_SUCCESS \<or> o_additional oc = ISC_R_NOSPACE)
        \<and> o_renderend oc = ISC_R_SUCCESS \<and> o_sendto oc \<noteq> ISC_R_SUCCESS \<longrightarrow>
      ns_client_send oc c =
        ns_client_next oc
          (released [Ext_renderbegin ISC_R_SUCCESS,
                     Ext_rendersection DNS_SECTION_QUESTION ISC_R_SUCCESS,
                     Ext_rendersection DNS_SECTION_ANSWER ISC_R_SUCCESS,
                     Ext_rendersection DNS_SECTION_AUTHORITY ISC_R_SUCCESS,
                     Ext_rendersection DNS_SECTION_ADDITIONAL (o_additional oc),
                     Ext_renderend ISC_R_SUCCESS,
                     Ext_sendto (send_target_of c) (rcode (message c)) (o_sendto oc)]
             (acquired c n))
          (o_sendto oc))
   \<and> (o_renderbegin oc = ISC_R_SUCCESS \<and> o_question oc = ISC_R_SUCCESS
        \<and> o_answer oc = ISC_R_SUCCESS \<and> o_authority oc = ISC_R_SUCCESS
        \<and> (o_additional oc = ISC_R_SUCCESS \<or> o_additional oc = ISC_R_NOSPACE)
        \<and> o_renderend oc = ISC_R_SUCCESS \<and> o_sendto oc = ISC_R_SUCCESS \<longrightarrow>
      ns_client_send oc c =
        ns_client_next oc
          ((emit [Ext_renderbegin ISC_R_SUCCESS,
                  Ext_rendersection DNS_SECTION_QUESTION ISC_R_SUCCESS,
                  Ext_rendersection DNS_SECTION_ANSWER ISC_R_SUCCESS,
                  Ext_rendersection DNS_SECTION_AUTHORITY ISC_R_SUCCESS,
                  Ext_rendersection DNS_SECTION_ADDITIONAL (o_additional oc),
                  Ext_renderend ISC_R_SUCCESS,
                  Ext_sendto (send_target_of c) (rcode (message c)) ISC_R_SUCCESS]
             (acquired c n))\<lparr>nsends := nsends c + 1\<rparr>)
          ISC_R_SUCCESS)"
  using assms
  unfolding ns_client_send_def send_done_def send_render_def Let_def released_def acquired_def
    send_target_of_def
  by (simp add: emit_def TCP_CLIENT_def)


lemmas eval_defs =
  working_client_def busy_client_def sample_defs ns_client_send_def send_render_def
  send_done_def ns_client_error_def ns_client_next.simps client_read.simps client_accept_def
  isc_mempool_get_def isc_mempool_put_def SENDBUFS_MAXALLOC_def Let_def

theorem send_calls_next_last_witness:
  "NS_CLIENT_VALID working_client
   \<and> fst (isc_mempool_get (o_mem all_success) (sendbufs working_client))
   \<and> (\<exists>c1 r. ns_client_send all_success working_client = ns_client_next all_success c1 r
         \<and> NS_CLIENT_VALID c1 \<and> state c1 = state working_client
         \<and> extends (\<lambda>e. \<not> call_next_event e) working_client c1)
   \<and> NS_CLIENT_VALID busy_client
   \<and> \<not> fst (isc_mempool_get (o_mem all_success) (sendbufs busy_client))
   \<and> 0 < nsends busy_client
   \<and> ns_client_send all_success busy_client =
       Some (busy_client\<lparr>state := ns_clientstate_waiting,
               trace := [Call_send, Ext_mempool_get False]\<rparr>)"
  using send_calls_next_last [of working_client all_success]
    send_calls_next_last [of busy_client all_success]
  by (simp add: working_client_def busy_client_def sample_defs isc_mempool_get_def
        SENDBUFS_MAXALLOC_def)

theorem send_pool_empty_witness:
  "NS_CLIENT_VALID busy_client
   \<and> \<not> fst (isc_mempool_get (o_mem all_success) (sendbufs busy_client))
   \<and> 0 < nsends busy_client \<and> state busy_client = ns_clientstate_working
   \<and> ns_client_send all_success busy_client =
       Some (busy_client\<lparr>state := ns_clientstate_waiting,
               trace := [Call_send, Ext_mempool_get False]\<rparr>)
   \<and> NS_CLIENT_VALID working_client
   \<and> \<not> fst (isc_mempool_get (o_mem (all_success\<lparr>o_mem := False\<rparr>)) (sendbufs working_client))
   \<and> \<not> 0 < nsends working_client
   \<and> ns_client_send (all_success\<lparr>o_mem := False\<rparr>) working_client =
       Some (working_client\<lparr>state := ns_clientstate_listening, dispevent := None,
               trace := [Call_send, Ext_mempool_get False, Call_next ISC_R_NOMEMORY,
                         Ext_message_reset, Ext_freeevent]\<rparr>)"
  using send_pool_empty [of busy_client all_success all_success]
    send_pool_empty [of working_client "all_success\<lparr>o_mem := False\<rparr>" all_success]
  by (simp add: eval_defs)

theorem error_reply_then_send_witness:
  "NS_CLIENT_VALID working_client
   \<and> fst (first_reply all_success working_client) = ISC_R_SUCCESS
   \<and> ns_client_error all_success working_client DNS_R_REFUSED =
       Some (working_client\<lparr>state := ns_clientstate_listening, dispevent := None,
               nsends := 1, sendbufs := 1,
               trace := [Call_error DNS_R_REFUSED, Ext_reply True 0 ISC_R_SUCCESS,
                         Call_send, Ext_mempool_get True,
                         Ext_renderbegin ISC_R_SUCCESS,
                         Ext_rendersection DNS_SECTION_QUESTION ISC_R_SUCCESS,
                         Ext_rendersection DNS_SECTION_ANSWER ISC_R_SUCCESS,
                         Ext_rendersection DNS_SECTION_AUTHORITY ISC_R_SUCCESS,
                         Ext_rendersection DNS_SECTION_ADDITIONAL ISC_R_SUCCESS,
                         Ext_renderend ISC_R_SUCCESS,
                         Ext_sendto (Udp_peer 42) 5 ISC_R_SUCCESS,
                         Call_next ISC_R_SUCCESS, Ext_message_reset, Ext_freeevent]\<rparr>)
   \<and> fst (first_reply
         (all_success\<lparr>o_reply := \<lambda>q m. (if q then ISC_R_NOSPACE else ISC_R_SUCCESS, m)\<rparr>)
         working_client) \<noteq> ISC_R_SUCCESS
   \<and> fst (second_reply
         (all_success\<lparr>o_reply := \<lambda>q m. (if q then ISC_R_NOSPACE else ISC_R_SUCCESS, m)\<rparr>)
         working_client) = ISC_R_SUCCESS
   \<and> ns_client_error
         (all_success\<lparr>o_reply := \<lambda>q m. (if q then ISC_R_NOSPACE else ISC_R_SUCCESS, m)\<rparr>)
         working_client DNS_R_NOTIMP =
       Some (working_client\<lparr>state := ns_clientstate_listening, dispevent := None,
               nsends := 1, sendbufs := 1,
               trace := [Call_error DNS_R_NOTIMP, Ext_reply True 0 ISC_R_NOSPACE,
                         Ext_reply False 0 ISC_R_SUCCESS,
                         Call_send, Ext_mempool_get True,
                         Ext_renderbegin ISC_R_SUCCESS,
                         Ext_rendersection DNS_SECTION_QUESTION ISC_R_SUCCESS,
                         Ext_rendersection DNS_SECTION_ANSWER ISC_R_SUCCESS,
                         Ext_rendersection DNS_SECTION_AUTHORITY ISC_R_SUCCESS,
                         Ext_rendersection DNS_SECTION_ADDITIONAL ISC_R_SUCCESS,
                         Ext_renderend ISC_R_SUCCESS,
                         Ext_sendto (Udp_peer 42) 4 ISC_R_SUCCESS,
                         Call_next ISC_R_SUCCESS, Ext_message_reset, Ext_freeevent]\<rparr>)
   \<and> fst (first_reply (all_success\<lparr>o_reply := \<lambda>q m. (ISC_R_NOSPACE, m)\<rparr>) working_client)
       \<noteq> ISC_R_SUCCESS
   \<and> fst (second_reply (all_success\<lparr>o_reply := \<lambda>q m. (ISC_R_NOSPACE, m)\<rparr>) working_client)
       \<noteq> ISC_R_SUCCESS
   \<and> ns_client_error (all_success\<lparr>o_reply := \<lambda>q m. (ISC_R_NOSPACE, m)\<rparr>) working_client
         DNS_R_REFUSED =
       Some (working_client\<lparr>state := ns_clientstate_listening, dispevent := None,
               trace := [Call_error DNS_R_REFUSED, Ext_reply True 0 ISC_R_NOSPACE,
                         Ext_reply False 0 ISC_R_NOSPACE,
                         Call_next ISC_R_NOSPACE, Ext_message_reset, Ext_freeevent]\<rparr>)"
  using error_reply_then_send [of working_client all_success DNS_R_REFUSED]
    error_reply_then_send [of working_client
      "all_success\<lparr>o_reply := \<lambda>q m. (if q then ISC_R_NOSPACE else ISC_R_SUCCESS, m)\<rparr>"
      DNS_R_NOTIMP]
    error_reply_then_send [of working_client
      "all_success\<lparr>o_reply := \<lambda>q m. (ISC_R_NOSPACE, m)\<rparr>" DNS_R_REFUSED]
  by (simp add: eval_defs first_reply_def second_reply_def qr_cleared_def)

theorem send_render_order_witness:
  "NS_CLIENT_VALID working_client
   \<and> isc_mempool_get True (sendbufs working_client) = (True, 1)
   \<and> map_option trace (ns_client_send (all_success\<lparr>o_renderbegin := ISC_R_NOMEMORY\<rparr>)
         working_client) =
       Some [Call_send, Ext_mempool_get True, Ext_renderbegin ISC_R_NOMEMORY,
             Ext_mempool_put, Call_next ISC_R_NOMEMORY, Ext_message_reset, Ext_freeevent]
   \<and> map_option trace (ns_client_send (all_success\<lparr>o_question := ISC_R_NOSPACE\<rparr>)
         working_client) =
       Some [Call_send, Ext_mempool_get True, Ext_renderbegin ISC_R_SUCCESS,
             Ext_rendersection DNS_SECTION_QUESTION ISC_R_NOSPACE,
             Ext_mempool_put, Call_next ISC_R_NOSPACE, Ext_message_reset, Ext_freeevent]
   \<and> ns_client_send (all_success\<lparr>o_answer := ISC_R_NOSPACE\<rparr>) working_client =
       Some (working_client\<lparr>state := ns_clientstate_listening, dispevent := None,
               trace := [Call_send, Ext_mempool_get True,
                         Ext_renderbegin ISC_R_SUCCESS,
                         Ext_rendersection DNS_SECTION_QUESTION ISC_R_SUCCESS,
                         Ext_rendersection DNS_SECTION_ANSWER ISC_R_NOSPACE,
                         Ext_mempool_put,
                         Call_next ISC_R_NOSPACE, Ext_message_reset, Ext_freeevent]\<rparr>)
   \<and> map_option trace (ns_client_send (all_success\<lparr>o_authority := ISC_R_NOSPACE\<rparr>)
         working_client) =
       Some [Call_send, Ext_mempool_get True, Ext_renderbegin ISC_R_SUCCESS,
             Ext_rendersection DNS_SECTION_QUESTION ISC_R_SUCCESS,
             Ext_rendersection DNS_SECTION_ANSWER ISC_R_SUCCESS,
             Ext_rendersection DNS_SECTION_AUTHORITY ISC_R_NOSPACE,
             Ext_mempool_put, Call_next ISC_R_NOSPACE, Ext_message_reset, Ext_freeevent]
   \<and> map_option trace (ns_client_send (all_success\<lparr>o_additional := ISC_R_NOMEMORY\<rparr>)
         working_client) =
       Some [Call_send, Ext_mempool_get True, Ext_renderbegin ISC_R_SUCCESS,
             Ext_rendersection DNS_SECTION_QUESTION ISC_R_SUCCESS,
             Ext_rendersection DNS_SECTION_ANSWER ISC_R_SUCCESS,
             Ext_rendersection DNS_SECTION_AUTHORITY ISC_R_SUCCESS,
             Ext_rendersection DNS_SECTION_ADDITIONAL ISC_R_NOMEMORY,
             Ext_mempool_put, Call_next ISC_R_NOMEMORY, Ext_message_reset, Ext_freeevent]
   \<and> map_option trace
         (ns_client_send (all_success\<lparr>o_additional := ISC_R_NOSPACE,
            o_renderend := ISC_R_NOSPACE\<rparr>) working_client) =
       Some [Call_send, Ext_mempool_get True, Ext_renderbegin ISC_R_SUCCESS,
             Ext_rendersection DNS_SECTION_QUESTION ISC_R_SUCCESS,
             Ext_rendersection DNS_SECTION_ANSWER ISC_R_SUCCESS,
             Ext_rendersection DNS_SECTION_AUTHORITY ISC_R_SUCCESS,
             Ext_rendersection DNS_SECTION_ADDITIONAL ISC_R_NOSPACE,
             Ext_renderend ISC_R_NOSPACE,
             Ext_mempool_put, Call_next ISC_R_NOSPACE, Ext_message_reset, Ext_freeevent]
   \<and> map_option trace (ns_client_send (all_success\<lparr>o_sendto := ISC_R_TIMEDOUT\<rparr>)
         working_client) =
       Some [Call_send, Ext_mempool_get True, Ext_renderbegin ISC_R_SUCCESS,
             Ext_rendersection DNS_SECTION_QUESTION ISC_R_SUCCESS,
             Ext_rendersection DNS_SECTION_ANSWER ISC_R_SUCCESS,
             Ext_rendersection DNS_SECTION_AUTHORITY ISC_R_SUCCESS,
             Ext_rendersection DNS_SECTION_ADDITIONAL ISC_R_SUCCESS,
             Ext_renderend ISC_R_SUCCESS,
             Ext_sendto (Udp_peer 42) 0 ISC_R_TIMEDOUT,
             Ext_mempool_put, Call_next ISC_R_TIMEDOUT, Ext_message_reset, Ext_freeevent]
   \<and> ns_client_send (all_success\<lparr>o_additional := ISC_R_NOSPACE\<rparr>) working_client =
       Some (working_client\<lparr>state := ns_clientstate_listening, dispevent := None,
               nsends := 1, sendbufs := 1,
               trace := [Call_send, Ext_mempool_get True,
                         Ext_renderbegin ISC_R_SUCCESS,
                         Ext_rendersection DNS_SECTION_QUESTION ISC_R_SUCCESS,
                         Ext_rendersection DNS_SECTION_ANSWER ISC_R_SUCCESS,
                         Ext_rendersection DNS_SECTION_AUTHORITY ISC_R_SUCCESS,
                         Ext_rendersection DNS_SECTION_ADDITIONAL ISC_R_NOSPACE,
                         Ext_renderend ISC_R_SUCCESS,
                         Ext_sendto (Udp_peer 42) 0 ISC_R_SUCCESS,
                         Call_next ISC_R_SUCCESS, Ext_message_reset, Ext_freeevent]\<rparr>)"
proof -
  have h1: "NS_CLIENT_VALID working_client"
    by (simp add: working_client_def sample_defs)
  have h2: "isc_mempool_get True (sendbufs working_client) = (True, 1)"
    by (simp add: working_client_def sample_defs isc_mempool_get_def SENDBUFS_MAXALLOC_def)
  have e1: "map_option trace (ns_client_send (all_success\<lparr>o_renderbegin := ISC_R_NOMEMORY\<rparr>)
         working_client) =
       Some [Call_send, Ext_mempool_get True, Ext_renderbegin ISC_R_NOMEMORY,
             Ext_mempool_put, Call_next ISC_R_NOMEMORY, Ext_message_reset, Ext_freeevent]"
    using send_render_order [of working_client "all_success\<lparr>o_renderbegin := ISC_R_NOMEMORY\<rparr>" 1]
    by (simp add: eval_defs released_def acquired_def send_target_of_def)
  have e2: "map_option trace (ns_client_send (all_success\<lparr>o_question := ISC_R_NOSPACE\<rparr>)
         working_client) =
       Some [Call_send, Ext_mempool_get True, Ext_renderbegin ISC_R_SUCCESS,
             Ext_rendersection DNS_SECTION_QUESTION ISC_R_NOSPACE,
             Ext_mempool_put, Call_next ISC_R_NOSPACE, Ext_message_reset, Ext_freeevent]"
    using send_render_order [of working_client "all_success\<lparr>o_question := ISC_R_NOSPACE\<rparr>" 1]
    by (simp add: eval_defs released_def acquired_def send_target_of_def)
  have e3: "ns_client_send (all_success\<lparr>o_answer := ISC_R_NOSPACE\<rparr>) working_client =
       Some (working_client\<lparr>state := ns_clientstate_listening, dispevent := None,
               trace := [Call_send, Ext_mempool_get True,
                         Ext_renderbegin ISC_R_SUCCESS,
                         Ext_rendersection DNS_SECTION_QUESTION ISC_R_SUCCESS,
                         Ext_rendersection DNS_SECTION_ANSWER ISC_R_NOSPACE,
                         Ext_mempool_put,
                         Call_next ISC_R_NOSPACE, Ext_message_reset, Ext_freeevent]\<rparr>)"
    using send_render_order [of working_client "all_success\<lparr>o_answer := ISC_R_NOSPACE\<rparr>" 1]
    by (simp add: eval_defs released_def acquired_def send_target_of_def)
  have e4: "map_option trace (ns_client_send (all_success\<lparr>o_authority := ISC_R_NOSPACE\<rparr>)
         working_client) =
       Some [Call_send, Ext_mempool_get True, Ext_renderbegin ISC_R_SUCCESS,
             Ext_rendersection DNS_SECTION_QUESTION ISC_R_SUCCESS,
             Ext_rendersection DNS_SECTION_ANSWER ISC_R_SUCCESS,
             Ext_rendersection DNS_SECTION_AUTHORITY ISC_R_NOSPACE,
             Ext_mempool_put, Call_next ISC_R_NOSPACE, Ext_message_reset, Ext_freeevent]"
    using send_render_order [of working_client "all_success\<lparr>o_authority := ISC_R_NOSPACE\<rparr>" 1]
    by (simp add: eval_defs released_def acquired_def send_target_of_def)
  have e5: "map_option trace (ns_client_send (all_success\<lparr>o_additional := ISC_R_NOMEMORY\<rparr>)
         working_client) =
       Some [Call_send, Ext_mempool_get True, Ext_renderbegin ISC_R_SUCCESS,
             Ext_rendersection DNS_SECTION_QUESTION ISC_R_SUCCESS,
             Ext_rendersection DNS_SECTION_ANSWER ISC_R_SUCCESS,
             Ext_rendersection DNS_SECTION_AUTHORITY ISC_R_SUCCESS,
             Ext_rendersection DNS_SECTION_ADDITIONAL ISC_R_NOMEMORY,
             Ext_mempool_put, Call_next ISC_R_NOMEMORY, Ext_message_reset, Ext_freeevent]"
    using send_render_order [of working_client "all_success\<lparr>o_additional := ISC_R_NOMEMORY\<rparr>" 1]
    by (simp add: eval_defs released_def acquired_def send_target_of_def)
  have e6: "map_option trace
         (ns_client_send (all_success\<lparr>o_additional := ISC_R_NOSPACE,
            o_renderend := ISC_R_NOSPACE\<rparr>) working_client) =
       Some [Call_send, Ext_mempool_get True, Ext_renderbegin ISC_R_SUCCESS,
             Ext_rendersection DNS_SECTION_QUESTION ISC_R_SUCCESS,
             Ext_rendersection DNS_SECTION_ANSWER ISC_R_SUCCESS,
             Ext_rendersection DNS_SECTION_AUTHORITY ISC_R_SUCCESS,
             Ext_rendersection DNS_SECTION_ADDITIONAL ISC_R_NOSPACE,
             Ext_renderend ISC_R_NOSPACE,
             Ext_mempool_put, Call_next ISC_R_NOSPACE, Ext_message_reset, Ext_freeevent]"
    using send_render_order [of working_client "all_success\<lparr>o_additional := ISC_R_NOSPACE, o_renderend := ISC_R_NOSPACE\<rparr>" 1]
    by (simp add: eval_defs released_def acquired_def send_target_of_def)
  have e7: "map_option trace (ns_client_send (all_success\<lparr>o_sendto := ISC_R_TIMEDOUT\<rparr>)
         working_client) =
       Some [Call_send, Ext_mempool_get True, Ext_renderbegin ISC_R_SUCCESS,
             Ext_rendersection DNS_SECTION_QUESTION ISC_R_SUCCESS,
             Ext_rendersection DNS_SECTION_ANSWER ISC_R_SUCCESS,
             Ext_rendersection DNS_SECTION_AUTHORITY ISC_R_SUCCESS,
             Ext_rendersection DNS_SECTION_ADDITIONAL ISC_R_SUCCESS,
             Ext_renderend ISC_R_SUCCESS,
             Ext_sendto (Udp_peer 42) 0 ISC_R_TIMEDOUT,
             Ext_mempool_put, Call_next ISC_R_TIMEDOUT, Ext_message_reset, Ext_freeevent]"
    using send_render_order [of working_client "all_success\<lparr>o_sendto := ISC_R_TIMEDOUT\<rparr>" 1]
    by (simp add: eval_defs released_def acquired_def send_target_of_def)
  have e8: "ns_client_send (all_success\<lparr>o_additional := ISC_R_NOSPACE\<rparr>) working_client =
       Some (working_client\<lparr>state := ns_clientstate_listening, dispevent := None,
               nsends := 1, sendbufs := 1,
               trace := [Call_send, Ext_mempool_get True,
                         Ext_renderbegin ISC_R_SUCCESS,
                         Ext_rendersection DNS_SECTION_QUESTION ISC_R_SUCCESS,
                         Ext_rendersection DNS_SECTION_ANSWER ISC_R_SUCCESS,
                         Ext_rendersection DNS_SECTION_AUTHORITY ISC_R_SUCCESS,
                         Ext_rendersection DNS_SECTION_ADDITIONAL ISC_R_NOSPACE,
                         Ext_renderend ISC_R_SUCCESS,
                         Ext_sendto (Udp_peer 42) 0 ISC_R_SUCCESS,
                         Call_next ISC_R_SUCCESS, Ext_message_reset, Ext_freeevent]\<rparr>)"
    using send_render_order [of working_client "all_success\<lparr>o_additional := ISC_R_NOSPACE\<rparr>" 1]
    by (simp add: eval_defs released_def acquired_def send_target_of_def)
  from h1 h2 e1 e2 e3 e4 e5 e6 e7 e8 show ?thesis
    by (intro conjI)
qed

subsection \<open>The waiting state, and the dispatch of IQUERY\<close>

lemma request_dispatch_waiting:
  assumes "request_dispatch oc1 oc2 c = Some c'" and "state c = ns_clientstate_working"
  shows "state c' = ns_clientstate_waiting \<longrightarrow> 0 < nsends c'"
  using assms
  unfolding request_dispatch_def
  by (auto split: dns_opcode.splits option.splits dest!: next_props error_props)

lemma client_request_waiting:
  assumes "client_request rq oc1 oc2 tsk ev c = Some c'"
  shows "state c' = ns_clientstate_waiting \<longrightarrow> 0 < nsends c'"
  using assms
  unfolding client_request_def Let_def
  apply (simp split: if_splits option.splits prod.splits)
  apply (auto dest!: next_props error_props request_dispatch_waiting)
  done

lemma client_senddone_waiting:
  assumes "client_senddone oc tsk ev c = Some c'"
  shows "state c' = ns_clientstate_waiting \<longrightarrow> 0 < nsends c' \<and> state c = ns_clientstate_waiting"
  using assms
  unfolding client_senddone_def Let_def
  by (auto split: if_splits dest!: send_props)

lemma activation_waiting:
  "(activate a c = Some c' \<and> state c' = ns_clientstate_waiting \<longrightarrow> 0 < nsends c')
   \<and> (client_senddone oc tsk ev c = Some c' \<and> state c = ns_clientstate_waiting \<longrightarrow>
        state c' \<noteq> ns_clientstate_waiting \<or> 0 < nsends c')"
proof (intro conjI impI)
  assume a: "activate a c = Some c' \<and> state c' = ns_clientstate_waiting"
  show "0 < nsends c'"
  proof (cases a)
    case (On_request rq oc1 oc2 tsk ev)
    with a show ?thesis by (auto dest: client_request_waiting)
  next
    case (On_senddone oc tsk ev)
    with a show ?thesis by (auto dest: client_senddone_waiting)
  next
    case (On_timeout oc tsk ev)
    with a show ?thesis
      by (auto simp: client_timeout_def split: if_splits dest!: next_props)
  next
    case (On_newconn oc tsk ev)
    with a show ?thesis
      by (auto simp: client_newconn_def split: if_splits isc_event.splits dest!: client_read_props)
  next
    case (Handler_send oc)
    with a show ?thesis by (auto dest!: send_props)
  next
    case (Handler_error oc r)
    with a show ?thesis by (auto dest!: error_props)
  next
    case (Handler_next oc r)
    with a show ?thesis by (auto dest!: next_props)
  qed
next
  assume "client_senddone oc tsk ev c = Some c' \<and> state c = ns_clientstate_waiting"
  then show "state c' \<noteq> ns_clientstate_waiting \<or> 0 < nsends c'"
    by (auto dest: client_senddone_waiting)
qed


lemma filter_none: "list_all (\<lambda>e. \<not> P e) es \<Longrightarrow> filter P es = []"
  by (induction es) auto

text \<open>
  C1, what the code does.  For a request with opcode IQUERY, whenever the dispatch
  returns, it has called \<^verbatim>\<open>ns_client_error\<close> twice for the request: with
  \<^verbatim>\<open>DNS_R_REFUSED\<close> and then, through the missing \<^verbatim>\<open>break\<close>, with
  \<^verbatim>\<open>DNS_R_NOTIMP\<close>.
\<close>

theorem iquery_dispatch_two_errors:
  assumes "opcode (message c) = dns_opcode_iquery"
    and "request_dispatch oc1 oc2 c = Some c'"
  shows "filter call_error_event (drop (length (trace c)) (trace c')) =
           [Call_error DNS_R_REFUSED, Call_error DNS_R_NOTIMP]"
proof -
  from assms obtain c1 where
    e1: "ns_client_error oc1 c DNS_R_REFUSED = Some c1"
    and e2: "ns_client_error oc2 c1 DNS_R_NOTIMP = Some c'"
    by (auto simp: request_dispatch_def split: option.splits)
  from error_props [OF e1] obtain es1 where
    t1: "trace c1 = trace c @ Call_error DNS_R_REFUSED # es1"
    and n1: "list_all (\<lambda>e. \<not> call_error_event e) es1"
    by auto
  from error_props [OF e2] obtain es2 where
    t2: "trace c' = trace c1 @ Call_error DNS_R_NOTIMP # es2"
    and n2: "list_all (\<lambda>e. \<not> call_error_event e) es2"
    by auto
  show ?thesis
    by (simp add: t1 t2 filter_none [OF n1] filter_none [OF n2])
qed

lemmas eval_defs2 = eval_defs client_request_def request_input_def request_dispatch_def
  iquery_env_def peer_event_def

theorem iquery_dispatch_two_errors_witness:
  "opcode (message (working_client\<lparr>message := (message working_client)
      \<lparr>opcode := dns_opcode_iquery\<rparr>\<rparr>)) = dns_opcode_iquery
   \<and> request_dispatch all_success all_success
       (working_client\<lparr>message := (message working_client)\<lparr>opcode := dns_opcode_iquery\<rparr>\<rparr>) =
       Some (working_client
         \<lparr>message := (message working_client)\<lparr>opcode := dns_opcode_iquery\<rparr>,
          state := ns_clientstate_listening, dispevent := None, nsends := 2, sendbufs := 2,
          trace := [Call_error DNS_R_REFUSED, Ext_reply True 0 ISC_R_SUCCESS,
                    Call_send, Ext_mempool_get True,
                    Ext_renderbegin ISC_R_SUCCESS,
                    Ext_rendersection DNS_SECTION_QUESTION ISC_R_SUCCESS,
                    Ext_rendersection DNS_SECTION_ANSWER ISC_R_SUCCESS,
                    Ext_rendersection DNS_SECTION_AUTHORITY ISC_R_SUCCESS,
                    Ext_rendersection DNS_SECTION_ADDITIONAL ISC_R_SUCCESS,
                    Ext_renderend ISC_R_SUCCESS,
                    Ext_sendto (Udp_peer 42) 5 ISC_R_SUCCESS,
                    Call_next ISC_R_SUCCESS, Ext_message_reset, Ext_freeevent,
                    Call_error DNS_R_NOTIMP, Ext_reply True 0 ISC_R_SUCCESS,
                    Call_send, Ext_mempool_get True,
                    Ext_renderbegin ISC_R_SUCCESS,
                    Ext_rendersection DNS_SECTION_QUESTION ISC_R_SUCCESS,
                    Ext_rendersection DNS_SECTION_ANSWER ISC_R_SUCCESS,
                    Ext_rendersection DNS_SECTION_AUTHORITY ISC_R_SUCCESS,
                    Ext_rendersection DNS_SECTION_ADDITIONAL ISC_R_SUCCESS,
                    Ext_renderend ISC_R_SUCCESS,
                    Ext_sendto Udp_no_event 4 ISC_R_SUCCESS,
                    Call_next ISC_R_SUCCESS, Ext_message_reset]\<rparr>)
   \<and> filter call_error_event
        (drop (length (trace working_client))
           (trace (the (request_dispatch all_success all_success
              (working_client\<lparr>message := (message working_client)
                 \<lparr>opcode := dns_opcode_iquery\<rparr>\<rparr>))))) =
       [Call_error DNS_R_REFUSED, Call_error DNS_R_NOTIMP]"
  using iquery_dispatch_two_errors
    [of "working_client\<lparr>message := (message working_client)\<lparr>opcode := dns_opcode_iquery\<rparr>\<rparr>"
      all_success all_success]
  by (simp add: eval_defs2)

text \<open>
  C2, what the code does.  An IQUERY request over UDP, with every library call
  succeeding: a response with rcode 5 (REFUSED) is sent to the peer, the dispatch event
  is released, and then a second response with rcode 4 (NOTIMP) is rendered and handed
  to the socket with the address taken from the released event.  The same request over
  TCP: after the first response the client is reading, and the second
  \<^verbatim>\<open>ns_client_error\<close> ends in the \<^verbatim>\<open>REQUIRE\<close> on the state in
  \<^verbatim>\<open>ns_client_next\<close>, which fails.
\<close>

theorem iquery_request_answers_notimp:
  "client_request iquery_env all_success all_success 1 peer_event sample_client =
     Some (sample_client
       \<lparr>message := \<lparr>flags = 0, rcode = 0, opcode = dns_opcode_iquery, rdclass = 1\<rparr>,
        requesttime := 1000, nsends := 2, sendbufs := 2,
        trace := [Ext_parse ISC_R_SUCCESS,
                  Call_error DNS_R_REFUSED, Ext_reply True 0 ISC_R_SUCCESS,
                  Call_send, Ext_mempool_get True,
                  Ext_renderbegin ISC_R_SUCCESS,
                  Ext_rendersection DNS_SECTION_QUESTION ISC_R_SUCCESS,
                  Ext_rendersection DNS_SECTION_ANSWER ISC_R_SUCCESS,
                  Ext_rendersection DNS_SECTION_AUTHORITY ISC_R_SUCCESS,
                  Ext_rendersection DNS_SECTION_ADDITIONAL ISC_R_SUCCESS,
                  Ext_renderend ISC_R_SUCCESS,
                  Ext_sendto (Udp_peer 42) 5 ISC_R_SUCCESS,
                  Call_next ISC_R_SUCCESS, Ext_view_detach, Ext_message_reset, Ext_freeevent,
                  Call_error DNS_R_NOTIMP, Ext_reply True 0 ISC_R_SUCCESS,
                  Call_send, Ext_mempool_get True,
                  Ext_renderbegin ISC_R_SUCCESS,
                  Ext_rendersection DNS_SECTION_QUESTION ISC_R_SUCCESS,
                  Ext_rendersection DNS_SECTION_ANSWER ISC_R_SUCCESS,
                  Ext_rendersection DNS_SECTION_AUTHORITY ISC_R_SUCCESS,
                  Ext_rendersection DNS_SECTION_ADDITIONAL ISC_R_SUCCESS,
                  Ext_renderend ISC_R_SUCCESS,
                  Ext_sendto Udp_no_event 4 ISC_R_SUCCESS,
                  Call_next ISC_R_SUCCESS, Ext_message_reset]\<rparr>)
   \<and> client_request iquery_env all_success all_success 1 (DNS_EVENT_TCPMSG True)
         sample_tcp_client = None"
  by (simp add: eval_defs2)

subsection \<open>Destroying the manager\<close>

lemma shutdown_all_result:
  assumes "list_all (client_at s) as"
  shows "shutdown_all as s = Some (s\<lparr>shutdowns := shutdowns s @ as\<rparr>)"
  using assms
proof (induction as arbitrary: s)
  case Nil
  then show ?case by simp
next
  case (Cons a as)
  from Cons.prems have "list_all (client_at (s\<lparr>shutdowns := shutdowns s @ [a]\<rparr>)) as"
    by (simp add: client_at_def list_all_iff)
  from Cons.IH [OF this] Cons.prems show ?case
    by (auto simp: client_at_def split: option.splits)
qed

lemma clientmgr_destroy_sets_exiting:
  assumes "mgr_inv s"
  shows "ns_clientmgr_destroy s =
           Some (s\<lparr>manager := (manager s)
                     \<lparr>exiting := True,
                      m_magic := (if clients (manager s) = [] then 0 else m_magic (manager s))\<rparr>,
                   shutdowns := shutdowns s @ clients (manager s),
                   manager_freed := (clients (manager s) = [])\<rparr>)"
proof -
  let ?s1 = "s\<lparr>manager := (manager s)\<lparr>exiting := True\<rparr>\<rparr>"
  from assms have "list_all (client_at ?s1) (clients (manager ?s1))"
    by (simp add: mgr_inv_def client_at_def list_all_iff)
  from shutdown_all_result [OF this]
  have sa: "shutdown_all (clients (manager s)) ?s1 =
      Some (?s1\<lparr>shutdowns := shutdowns s @ clients (manager s)\<rparr>)"
    by simp
  show ?thesis
  proof (cases "clients (manager s) = []")
    case True
    with assms have "nclients (manager s) = 0"
      by (simp add: mgr_inv_def unat_eq_0)
    with assms True show ?thesis
      by (simp add: ns_clientmgr_destroy_def Let_def mgr_inv_def clientmgr_destroy_def)
  next
    case False
    with assms sa show ?thesis
      by (simp add: ns_clientmgr_destroy_def Let_def mgr_inv_def)
  qed
qed

lemma client_shutdown_step:
  assumes "exiting_inv s" and "a \<in> set (clients (manager s))" and "store s a = Some c"
  shows "\<exists>s'. client_shutdown (task c) ISC_TASKEVENT_SHUTDOWN a s = Some s'
           \<and> clients (manager s') = remove1 a (clients (manager s))
           \<and> (if length (clients (manager s)) = 1 then manager_freed s' else exiting_inv s')"
proof -
  from assms have v: "NS_CLIENT_VALID c"
    by (auto simp: exiting_inv_def list_all_iff client_at_def)
  from assms have len: "unat (nclients (manager s)) = length (clients (manager s))"
    and pos: "0 < length (clients (manager s))"
    by (auto simp: exiting_inv_def)
  then have nz: "nclients (manager s) \<noteq> 0"
    by auto
  then have gt: "0 < nclients (manager s)"
    by (simp add: word_greater_zero_iff)
  have dec: "unat (nclients (manager s) - 1) = length (clients (manager s)) - 1"
    using unat_minus_one [OF nz] len by simp
  have rm: "length (remove1 a (clients (manager s))) = length (clients (manager s)) - 1"
    using assms(2) by (simp add: length_remove1)
  show ?thesis
  proof (cases "length (clients (manager s)) = 1")
    case True
    with dec have z: "nclients (manager s) - 1 = 0"
      by (simp add: unat_eq_0)
    from True rm have e: "remove1 a (clients (manager s)) = []"
      by simp
    from assms v gt z e True show ?thesis
      by (simp add: client_shutdown_def client_destroy_def Let_def client_free_def
            clientmgr_destroy_def exiting_inv_def)
  next
    case False
    from False pos have "length (clients (manager s)) - 1 \<noteq> 0"
      by arith
    with dec have "unat (nclients (manager s) - 1) \<noteq> 0"
      by simp
    then have nz': "nclients (manager s) - 1 \<noteq> 0"
      by (simp add: unat_eq_0)
    have "list_all (client_at (s\<lparr>manager := (manager s)
            \<lparr>nclients := nclients (manager s) - 1,
             clients := remove1 a (clients (manager s))\<rparr>,
           store := (store s)(a := None)\<rparr>)) (remove1 a (clients (manager s)))"
      using assms(1)
      by (auto simp: exiting_inv_def list_all_iff client_at_def split: option.splits)
    with assms v gt nz' False dec rm show ?thesis
      by (simp add: client_shutdown_def client_destroy_def Let_def client_free_def
            exiting_inv_def)
  qed
qed


lemma run_shutdowns_prefix:
  assumes "exiting_inv s" and "distinct as" and "set as \<subseteq> set (clients (manager s))"
    and "length as < length (clients (manager s))"
  shows "\<exists>s'. run_shutdowns as s = Some s' \<and> exiting_inv s'
           \<and> set (clients (manager s')) = set (clients (manager s)) - set as
           \<and> length (clients (manager s')) = length (clients (manager s)) - length as"
  using assms
proof (induction as arbitrary: s)
  case Nil
  then show ?case by simp
next
  case (Cons a as)
  from Cons.prems have a: "a \<in> set (clients (manager s))" and d: "distinct (clients (manager s))"
    by (auto simp: exiting_inv_def)
  with Cons.prems obtain c where c: "store s a = Some c"
    by (auto simp: exiting_inv_def list_all_iff client_at_def split: option.splits)
  from Cons.prems have n1: "length (clients (manager s)) \<noteq> 1"
    by auto
  from client_shutdown_step [OF Cons.prems(1) a c] n1 obtain s1 where
    s1: "client_shutdown (task c) ISC_TASKEVENT_SHUTDOWN a s = Some s1"
    and cl: "clients (manager s1) = remove1 a (clients (manager s))"
    and inv: "exiting_inv s1"
    by auto
  from d have st: "set (clients (manager s1)) = set (clients (manager s)) - {a}"
    by (simp add: cl)
  from a have ln: "length (clients (manager s1)) = length (clients (manager s)) - 1"
    by (simp add: cl length_remove1)
  from Cons.prems st have "set as \<subseteq> set (clients (manager s1))"
    by auto
  moreover from Cons.prems ln have "length as < length (clients (manager s1))"
    by simp
  moreover from Cons.prems have "distinct as"
    by simp
  ultimately obtain s' where "run_shutdowns as s1 = Some s'" "exiting_inv s'"
    "set (clients (manager s')) = set (clients (manager s1)) - set as"
    "length (clients (manager s')) = length (clients (manager s1)) - length as"
    using Cons.IH [OF inv] by blast
  with c s1 st ln show ?case
    by auto
qed

lemma run_shutdowns_all:
  assumes "exiting_inv s" and "distinct as" and "set as = set (clients (manager s))"
    and "as \<noteq> []"
  shows "\<exists>s'. run_shutdowns as s = Some s' \<and> manager_freed s' \<and> exiting (manager s')
           \<and> nclients (manager s') = 0 \<and> clients (manager s') = []"
proof -
  from assms have d: "distinct (clients (manager s))"
    by (simp add: exiting_inv_def)
  with assms have len: "length as = length (clients (manager s))"
    by (metis distinct_card)
  obtain bs a where as: "as = bs @ [a]"
    using assms(4) by (metis rev_exhaust)
  have run_app: "\<And>xs ys t. run_shutdowns (xs @ ys) t =
      (case run_shutdowns xs t of None \<Rightarrow> None | Some t' \<Rightarrow> run_shutdowns ys t')"
  proof -
    fix xs ys t show "run_shutdowns (xs @ ys) t =
      (case run_shutdowns xs t of None \<Rightarrow> None | Some t' \<Rightarrow> run_shutdowns ys t')"
      by (induction xs arbitrary: t) (auto split: option.splits)
  qed
  from assms as len have "distinct bs" "set bs \<subseteq> set (clients (manager s))"
    "length bs < length (clients (manager s))"
    by auto
  from run_shutdowns_prefix [OF assms(1) this] obtain s1 where
    s1: "run_shutdowns bs s = Some s1" and inv: "exiting_inv s1"
    and st: "set (clients (manager s1)) = set (clients (manager s)) - set bs"
    and ln: "length (clients (manager s1)) = length (clients (manager s)) - length bs"
    by blast
  from assms as st have a: "a \<in> set (clients (manager s1))"
    by auto
  from len as ln have one: "length (clients (manager s1)) = 1"
    by simp
  from inv a obtain c where c: "store s1 a = Some c"
    by (auto simp: exiting_inv_def list_all_iff client_at_def split: option.splits)
  from client_shutdown_step [OF inv a c] one obtain s2 where
    s2: "client_shutdown (task c) ISC_TASKEVENT_SHUTDOWN a s1 = Some s2"
    and fr: "manager_freed s2"
    by auto
  from s2 fr inv have "exiting (manager s2) \<and> nclients (manager s2) = 0
      \<and> clients (manager s2) = []"
    by (auto simp: client_shutdown_def client_destroy_def Let_def client_free_def
          clientmgr_destroy_def exiting_inv_def split: option.splits if_splits)
  with s1 s2 c fr show ?thesis
    by (simp add: as run_app)
qed


lemma client_destroy_frees:
  assumes "client_destroy a t = Some t'" and "\<not> manager_freed t" and "manager_freed t'"
  shows "exiting (manager t') \<and> nclients (manager t') = 0 \<and> clients (manager t') = []"
  using assms
  by (auto simp: client_destroy_def Let_def client_free_def clientmgr_destroy_def
        split: option.splits if_splits)

lemma ns_clientmgr_destroy_frees:
  assumes "ns_clientmgr_destroy t = Some t'" and "manager_freed t'"
  shows "exiting (manager t') \<and> nclients (manager t') = 0 \<and> clients (manager t') = []"
proof -
  have sa: "\<And>as u u'. shutdown_all as u = Some u' \<Longrightarrow>
      manager u' = manager u \<and> manager_freed u' = manager_freed u"
  proof -
    fix as u u' show "shutdown_all as u = Some u' \<Longrightarrow>
      manager u' = manager u \<and> manager_freed u' = manager_freed u"
      by (induction as arbitrary: u) (auto split: option.splits)
  qed
  from assms show ?thesis
    by (auto simp: ns_clientmgr_destroy_def Let_def clientmgr_destroy_def
          split: option.splits if_splits dest!: sa)
qed

text \<open>
  C7.  On a manager in use, \<^verbatim>\<open>ns_clientmgr_destroy\<close> returns with \<open>exiting\<close> set and
  a shutdown sent to the task of every client of the list, in the order of the list.
  When the list is empty the manager is freed by that call.  When it is not, the manager
  is not freed by that call, and in whatever order the shutdown events of the clients
  are then delivered, the manager is not freed while a client is left and is freed by
  the \<^verbatim>\<open>client_destroy\<close> of the last one.  Whenever \<^verbatim>\<open>client_destroy\<close> or
  \<^verbatim>\<open>ns_clientmgr_destroy\<close> frees the manager, \<open>exiting\<close> holds, the count of clients
  is zero and the list is empty.
\<close>

theorem manager_destroyed_by_last_client:
  "(mgr_inv s \<longrightarrow>
      (\<exists>s1. ns_clientmgr_destroy s = Some s1
         \<and> exiting (manager s1)
         \<and> shutdowns s1 = shutdowns s @ clients (manager s)
         \<and> clients (manager s1) = clients (manager s)
         \<and> (clients (manager s) = [] \<longrightarrow> manager_freed s1)
         \<and> (clients (manager s) \<noteq> [] \<longrightarrow>
              \<not> manager_freed s1
              \<and> (\<forall>as. distinct as \<and> set as = set (clients (manager s)) \<longrightarrow>
                     (\<forall>k<length as. \<exists>s'. run_shutdowns (take k as) s1 = Some s'
                                           \<and> \<not> manager_freed s')
                     \<and> (\<exists>s2. run_shutdowns as s1 = Some s2 \<and> manager_freed s2)))))
   \<and> (client_destroy a t = Some t' \<and> \<not> manager_freed t \<and> manager_freed t' \<longrightarrow>
        exiting (manager t') \<and> nclients (manager t') = 0 \<and> clients (manager t') = [])
   \<and> (ns_clientmgr_destroy t = Some t' \<and> manager_freed t' \<longrightarrow>
        exiting (manager t') \<and> nclients (manager t') = 0 \<and> clients (manager t') = [])"
proof (intro conjI impI)
  assume inv: "mgr_inv s"
  let ?s1 = "s\<lparr>manager := (manager s)
                     \<lparr>exiting := True,
                      m_magic := (if clients (manager s) = [] then 0 else m_magic (manager s))\<rparr>,
                   shutdowns := shutdowns s @ clients (manager s),
                   manager_freed := (clients (manager s) = [])\<rparr>"
  have d: "ns_clientmgr_destroy s = Some ?s1"
    using inv by (rule clientmgr_destroy_sets_exiting)
  have rest: "clients (manager s) \<noteq> [] \<longrightarrow>
              \<not> manager_freed ?s1
              \<and> (\<forall>as. distinct as \<and> set as = set (clients (manager s)) \<longrightarrow>
                     (\<forall>k<length as. \<exists>s'. run_shutdowns (take k as) ?s1 = Some s'
                                           \<and> \<not> manager_freed s')
                     \<and> (\<exists>s2. run_shutdowns as ?s1 = Some s2 \<and> manager_freed s2))"
  proof (intro impI conjI allI)
    assume ne: "clients (manager s) \<noteq> []"
    then show "\<not> manager_freed ?s1" by simp
    from inv ne have e: "exiting_inv ?s1"
      by (simp add: mgr_inv_def exiting_inv_def list_all_iff client_at_def)
    fix as assume as: "distinct as \<and> set as = set (clients (manager s))"
    with ne have "as \<noteq> []" by auto
    with as run_shutdowns_all [OF e, of as]
    show "\<exists>s2. run_shutdowns as ?s1 = Some s2 \<and> manager_freed s2"
      by auto
    from inv as have len: "length as = length (clients (manager s))"
      by (metis distinct_card mgr_inv_def)
    fix k assume k: "k < length as"
    from as have "distinct (take k as)" "set (take k as) \<subseteq> set (clients (manager ?s1))"
      by (auto dest: in_set_takeD)
    moreover from k len have "length (take k as) < length (clients (manager ?s1))"
      by simp
    ultimately obtain s' where "run_shutdowns (take k as) ?s1 = Some s'" "exiting_inv s'"
      using run_shutdowns_prefix [OF e] by blast
    then show "\<exists>s'. run_shutdowns (take k as) ?s1 = Some s' \<and> \<not> manager_freed s'"
      by (auto simp: exiting_inv_def)
  qed
  show "\<exists>s1. ns_clientmgr_destroy s = Some s1
         \<and> exiting (manager s1)
         \<and> shutdowns s1 = shutdowns s @ clients (manager s)
         \<and> clients (manager s1) = clients (manager s)
         \<and> (clients (manager s) = [] \<longrightarrow> manager_freed s1)
         \<and> (clients (manager s) \<noteq> [] \<longrightarrow>
              \<not> manager_freed s1
              \<and> (\<forall>as. distinct as \<and> set as = set (clients (manager s)) \<longrightarrow>
                     (\<forall>k<length as. \<exists>s'. run_shutdowns (take k as) s1 = Some s'
                                           \<and> \<not> manager_freed s')
                     \<and> (\<exists>s2. run_shutdowns as s1 = Some s2 \<and> manager_freed s2)))"
    apply (rule exI [of _ ?s1])
    apply (intro conjI)
         apply (rule d)
        apply simp
       apply simp
      apply simp
     apply simp
    apply (rule rest)
    done
next
  assume "client_destroy a t = Some t' \<and> \<not> manager_freed t \<and> manager_freed t'"
  then show "exiting (manager t')" "nclients (manager t') = 0" "clients (manager t') = []"
    using client_destroy_frees [of a t t'] by auto
next
  assume "ns_clientmgr_destroy t = Some t' \<and> manager_freed t'"
  then show "exiting (manager t')" "nclients (manager t') = 0" "clients (manager t') = []"
    using ns_clientmgr_destroy_frees [of t t'] by auto
qed



lemmas mgr_eval_defs =
  two_clients_def mgr_inv_def client_at_def VALID_MANAGER_def MANAGER_MAGIC_def
  ns_clientmgr_destroy_def client_shutdown_def client_destroy_def client_free_def
  clientmgr_destroy_def Let_def sample_defs

theorem manager_destroyed_by_last_client_witness:
  "mgr_inv two_clients
   \<and> clients (manager two_clients) \<noteq> []
   \<and> distinct [20, 10 :: nat] \<and> set [20, 10] = set (clients (manager two_clients))
   \<and> (\<exists>s1. ns_clientmgr_destroy two_clients = Some s1
         \<and> exiting (manager s1) \<and> \<not> manager_freed s1
         \<and> (\<exists>s'. run_shutdowns (take 1 [20, 10]) s1 = Some s' \<and> \<not> manager_freed s')
         \<and> (\<exists>s2. run_shutdowns [20, 10] s1 = Some s2 \<and> manager_freed s2))
   \<and> ns_clientmgr_destroy two_clients =
       Some (two_clients\<lparr>manager := (manager two_clients)\<lparr>exiting := True\<rparr>,
               shutdowns := [10, 20]\<rparr>)
   \<and> run_shutdowns [20, 10]
         (two_clients\<lparr>manager := (manager two_clients)\<lparr>exiting := True\<rparr>,
            shutdowns := [10, 20]\<rparr>) =
       Some \<lparr>manager = \<lparr>m_magic = 0, exiting = True, nclients = 0, clients = []\<rparr>,
             manager_freed = True, store = (\<lambda>a. None), shutdowns = [10, 20]\<rparr>
   \<and> mgr_inv no_clients \<and> clients (manager no_clients) = []
   \<and> ns_clientmgr_destroy no_clients =
       Some \<lparr>manager = \<lparr>m_magic = 0, exiting = True, nclients = 0, clients = []\<rparr>,
             manager_freed = True, store = (\<lambda>a. None), shutdowns = []\<rparr>
   \<and> \<not> manager_freed last_client
   \<and> client_destroy 10 last_client =
       Some \<lparr>manager = \<lparr>m_magic = 0, exiting = True, nclients = 0, clients = []\<rparr>,
             manager_freed = True, store = (\<lambda>a. None), shutdowns = [10]\<rparr>"
proof -
  have inv: "mgr_inv two_clients"
    by (simp add: mgr_eval_defs)
  have ne: "clients (manager two_clients) \<noteq> []"
    by (simp add: two_clients_def)
  have ord: "distinct [20, 10 :: nat] \<and> set [20, 10] = set (clients (manager two_clients))"
    by (auto simp: two_clients_def)
  from manager_destroyed_by_last_client [of two_clients] inv ne
  obtain s1 where s1: "ns_clientmgr_destroy two_clients = Some s1"
    and ex: "exiting (manager s1)" and nf: "\<not> manager_freed s1"
    and run: "\<forall>as. distinct as \<and> set as = set (clients (manager two_clients)) \<longrightarrow>
                     (\<forall>k<length as. \<exists>s'. run_shutdowns (take k as) s1 = Some s'
                                           \<and> \<not> manager_freed s')
                     \<and> (\<exists>s2. run_shutdowns as s1 = Some s2 \<and> manager_freed s2)"
    by blast
  from run ord have r: "(\<forall>k<length [20, 10 :: nat].
        \<exists>s'. run_shutdowns (take k [20, 10]) s1 = Some s' \<and> \<not> manager_freed s')
      \<and> (\<exists>s2. run_shutdowns [20, 10] s1 = Some s2 \<and> manager_freed s2)"
    by blast
  then have "\<exists>s'. run_shutdowns (take 1 [20, 10]) s1 = Some s' \<and> \<not> manager_freed s'"
    by (metis length_Cons less_Suc_eq_0_disj list.size(3) One_nat_def)
  with s1 ex nf r have part: "\<exists>s1. ns_clientmgr_destroy two_clients = Some s1
         \<and> exiting (manager s1) \<and> \<not> manager_freed s1
         \<and> (\<exists>s'. run_shutdowns (take 1 [20, 10]) s1 = Some s' \<and> \<not> manager_freed s')
         \<and> (\<exists>s2. run_shutdowns [20, 10] s1 = Some s2 \<and> manager_freed s2)"
    by blast
  have d: "ns_clientmgr_destroy two_clients =
       Some (two_clients\<lparr>manager := (manager two_clients)\<lparr>exiting := True\<rparr>,
               shutdowns := [10, 20]\<rparr>)"
    by (simp add: mgr_eval_defs)
  have e: "run_shutdowns [20, 10]
         (two_clients\<lparr>manager := (manager two_clients)\<lparr>exiting := True\<rparr>,
            shutdowns := [10, 20]\<rparr>) =
       Some \<lparr>manager = \<lparr>m_magic = 0, exiting = True, nclients = 0, clients = []\<rparr>,
             manager_freed = True, store = (\<lambda>a. None), shutdowns = [10, 20]\<rparr>"
    by (simp add: mgr_eval_defs fun_eq_iff)
  have inv0: "mgr_inv no_clients" and e0: "clients (manager no_clients) = []"
    by (simp_all add: no_clients_def mgr_eval_defs)
  from manager_destroyed_by_last_client [of no_clients] inv0 e0
  have "\<exists>s1. ns_clientmgr_destroy no_clients = Some s1 \<and> manager_freed s1"
    by blast
  then have d0: "ns_clientmgr_destroy no_clients =
       Some \<lparr>manager = \<lparr>m_magic = 0, exiting = True, nclients = 0, clients = []\<rparr>,
             manager_freed = True, store = (\<lambda>a. None), shutdowns = []\<rparr>"
    by (simp add: no_clients_def mgr_eval_defs)
  have nl: "\<not> manager_freed last_client"
    by (simp add: last_client_def)
  have dl: "client_destroy 10 last_client =
       Some \<lparr>manager = \<lparr>m_magic = 0, exiting = True, nclients = 0, clients = []\<rparr>,
             manager_freed = True, store = (\<lambda>a. None), shutdowns = [10]\<rparr>"
    by (simp add: last_client_def mgr_eval_defs fun_eq_iff)
  from inv ne ord part d e inv0 e0 d0 nl dl show ?thesis
    by (intro conjI) simp_all
qed

subsection \<open>Creating clients: partial success\<close>

lemma word32_succ: "unat (i::32 word) < unat (n::32 word) \<Longrightarrow> unat (i + 1) = Suc (unat i)"
  using unsigned_less [of n, where ?'a = nat]
  by (simp add: unat_add_lem [THEN iffD1])

lemma client_create_error: "client_create co typ = Inl r \<Longrightarrow> r \<noteq> ISC_R_SUCCESS"
  by (auto simp: client_create_def split: option.splits if_splits)

lemma addtodispatch_loop_result:
  assumes "addtodispatch_loop cos ars d n i r s = (j, r', s')" and "unat i \<le> unat n"
  shows "unat i \<le> unat j \<and> unat j \<le> unat n
     \<and> length (clients (manager s')) = length (clients (manager s)) + (unat j - unat i)
     \<and> manager_freed s' = manager_freed s
     \<and> (unat j < unat n \<longrightarrow> r' \<noteq> ISC_R_SUCCESS
          \<and> r' = (case client_create (cos j) ns_clienttype_basic of
                    Inl e \<Rightarrow> e | Inr p \<Rightarrow> fst (ars j)))
     \<and> (unat j = unat n \<and> unat i < unat n \<longrightarrow> r' = ISC_R_SUCCESS)"
  using assms
proof (induction cos ars d n i r s rule: addtodispatch_loop.induct)
  case (1 cos ars d n i result s)
  show ?case
  proof (cases "i < n")
    case False
    with "1.prems" show ?thesis
      by (simp add: addtodispatch_loop.simps [of cos ars d n i] word_less_nat_alt)
  next
    case True
    then have lt: "unat i < unat n" by (simp add: word_less_nat_alt)
    show ?thesis
    proof (cases "client_create (cos i) ns_clienttype_basic")
      case (Inl e)
      with "1.prems" True lt client_create_error [OF Inl] show ?thesis
        by (simp add: addtodispatch_loop.simps [of cos ars d n i])
    next
      case (Inr p)
      obtain a c where p: "p = (a, c)" by (cases p)
      show ?thesis
      proof (cases "fst (ars i) = ISC_R_SUCCESS")
        case False
        with "1.prems" True lt Inr p show ?thesis
          by (auto simp: addtodispatch_loop.simps [of cos ars d n i] Let_def)
      next
        case ok: True
        let ?s1 = "s\<lparr>manager := (manager s)
                                 \<lparr>nclients := nclients (manager s) + 1,
                                  clients := clients (manager s) @ [a]\<rparr>,
                      store := (store s)(a \<mapsto> c\<lparr>state := ns_clientstate_listening,
                                 dispatch := Some d, dispentry := Some (snd (ars i))\<rparr>)\<rparr>"
        from "1.prems" True Inr p ok
        have rec: "addtodispatch_loop cos ars d n (i + 1) ISC_R_SUCCESS ?s1 = (j, r', s')"
          by (simp add: addtodispatch_loop.simps [of cos ars d n i] Let_def)
        have su: "unat (i + 1) = Suc (unat i)"
          using lt by (rule word32_succ)
        have le: "unat (i + 1) \<le> unat n"
          using lt by (simp add: su)
        have ih: "unat (i + 1) \<le> unat j \<and> unat j \<le> unat n
           \<and> length (clients (manager s')) = length (clients (manager ?s1)) + (unat j - unat (i + 1))
           \<and> manager_freed s' = manager_freed ?s1
           \<and> (unat j < unat n \<longrightarrow> r' \<noteq> ISC_R_SUCCESS
                \<and> r' = (case client_create (cos j) ns_clienttype_basic of
                          Inl e \<Rightarrow> e | Inr p \<Rightarrow> fst (ars j)))
           \<and> (unat j = unat n \<and> unat (i + 1) < unat n \<longrightarrow> r' = ISC_R_SUCCESS)"
          using "1.IH" [OF True Inr p [symmetric] refl refl _ refl refl] ok rec le
          by auto
        show ?thesis
        proof (cases "unat (i + 1) < unat n")
          case True
          with ih lt show ?thesis
            by (auto simp: su)
        next
          case False
          with le have eq: "unat (i + 1) = unat n" by simp
          then have "i + 1 = n" by (simp add: word_unat_eq_iff)
          with rec have "j = n" "r' = ISC_R_SUCCESS"
            by (simp_all add: addtodispatch_loop.simps [of cos ars d n n])
          with ih lt show ?thesis
            by (auto simp: su)
        qed
      qed
    qed
  qed
qed


lemma accepttcp_loop_result:
  assumes "accepttcp_loop cos acs sock n i r s = (j, r', s')" and "unat i \<le> unat n"
  shows "unat i \<le> unat j \<and> unat j \<le> unat n
     \<and> length (clients (manager s')) = length (clients (manager s)) + (unat j - unat i)
     \<and> manager_freed s' = manager_freed s
     \<and> (unat j < unat n \<longrightarrow> r' \<noteq> ISC_R_SUCCESS
          \<and> client_create (cos j) ns_clienttype_tcp = Inl r')
     \<and> (unat j = unat n \<and> unat i < unat n \<longrightarrow> r' = ISC_R_SUCCESS)"
  using assms
proof (induction cos acs sock n i r s rule: accepttcp_loop.induct)
  case (1 cos acs sock n i result s)
  show ?case
  proof (cases "i < n")
    case False
    with "1.prems" show ?thesis
      by (simp add: accepttcp_loop.simps [of cos acs sock n i] word_less_nat_alt)
  next
    case True
    then have lt: "unat i < unat n" by (simp add: word_less_nat_alt)
    show ?thesis
    proof (cases "client_create (cos i) ns_clienttype_tcp")
      case (Inl e)
      with "1.prems" True lt client_create_error [OF Inl] show ?thesis
        by (simp add: accepttcp_loop.simps [of cos acs sock n i])
    next
      case (Inr p)
      obtain a c where p: "p = (a, c)" by (cases p)
      let ?c1 = "client_accept (acs i)
          (c\<lparr>state := ns_clientstate_listening,
             attributes := attributes c OR NS_CLIENTATTR_TCP,
             tcplistener := Some sock\<rparr>)"
      let ?s1 = "s\<lparr>manager := (manager s)
                               \<lparr>nclients := nclients (manager s) + 1,
                                clients := clients (manager s) @ [a]\<rparr>,
                    store := (store s)(a \<mapsto> ?c1)\<rparr>"
      from "1.prems" True Inr p
      have rec: "accepttcp_loop cos acs sock n (i + 1) ISC_R_SUCCESS ?s1 = (j, r', s')"
        by (simp add: accepttcp_loop.simps [of cos acs sock n i] Let_def)
      have su: "unat (i + 1) = Suc (unat i)"
        using lt by (rule word32_succ)
      have le: "unat (i + 1) \<le> unat n"
        using lt by (simp add: su)
      have ih: "unat (i + 1) \<le> unat j \<and> unat j \<le> unat n
         \<and> length (clients (manager s')) = length (clients (manager ?s1)) + (unat j - unat (i + 1))
         \<and> manager_freed s' = manager_freed ?s1
         \<and> (unat j < unat n \<longrightarrow> r' \<noteq> ISC_R_SUCCESS
              \<and> client_create (cos j) ns_clienttype_tcp = Inl r')
         \<and> (unat j = unat n \<and> unat (i + 1) < unat n \<longrightarrow> r' = ISC_R_SUCCESS)"
        using "1.IH" [OF True Inr p [symmetric] refl refl refl refl refl] rec le
        by auto
      show ?thesis
      proof (cases "unat (i + 1) < unat n")
        case True
        with ih lt show ?thesis
          by (auto simp: su)
      next
        case False
        with le have eq: "unat (i + 1) = unat n" by simp
        then have "i + 1 = n" by (simp add: word_unat_eq_iff)
        with rec have "j = n" "r' = ISC_R_SUCCESS"
          by (simp_all add: accepttcp_loop.simps [of cos acs sock n n])
        with ih lt show ?thesis
          by (auto simp: su)
      qed
    qed
  qed
qed

text \<open>
  C9.  On a valid manager and for \<open>0 < n\<close>, \<^verbatim>\<open>ns_clientmgr_addtodispatch\<close> and
  \<^verbatim>\<open>ns_clientmgr_accepttcp\<close> return, having added between 0 and \<open>n\<close> clients to the
  list.  When at least one client has been added the result is success, whatever made
  the loop stop early.  When none has been added the result is the failure of the first
  iteration: the result of \<^verbatim>\<open>client_create\<close>, or for \<^verbatim>\<open>ns_clientmgr_addtodispatch\<close>
  the result of \<^verbatim>\<open>dns_dispatch_addrequest\<close> when the client had been created.
\<close>

theorem partial_success_is_success:
  assumes "\<not> manager_freed s" and "VALID_MANAGER (manager s)" and "0 < n"
  shows "(\<exists>res s'. ns_clientmgr_addtodispatch cos ars s n d = Some (res, s')
            \<and> length (clients (manager s)) \<le> length (clients (manager s'))
            \<and> length (clients (manager s')) \<le> length (clients (manager s)) + unat n
            \<and> (length (clients (manager s)) < length (clients (manager s')) \<longrightarrow>
                 res = ISC_R_SUCCESS)
            \<and> (length (clients (manager s')) = length (clients (manager s)) \<longrightarrow>
                 res \<noteq> ISC_R_SUCCESS
                 \<and> res = (case client_create (cos 0) ns_clienttype_basic of
                             Inl e \<Rightarrow> e | Inr p \<Rightarrow> fst (ars 0))))
       \<and> (\<exists>res s'. ns_clientmgr_accepttcp cos acs s sock n = Some (res, s')
            \<and> length (clients (manager s)) \<le> length (clients (manager s'))
            \<and> length (clients (manager s')) \<le> length (clients (manager s)) + unat n
            \<and> (length (clients (manager s)) < length (clients (manager s')) \<longrightarrow>
                 res = ISC_R_SUCCESS)
            \<and> (length (clients (manager s')) = length (clients (manager s)) \<longrightarrow>
                 res \<noteq> ISC_R_SUCCESS
                 \<and> client_create (cos 0) ns_clienttype_tcp = Inl res))"
proof (rule conjI)
  from assms(3) have n: "0 < unat n"
    by (simp add: word_less_nat_alt)
  obtain j r' s' where l: "addtodispatch_loop cos ars d n 0 ISC_R_SUCCESS s = (j, r', s')"
    by (cases "addtodispatch_loop cos ars d n 0 ISC_R_SUCCESS s")
  from addtodispatch_loop_result [OF l] n
  have f: "unat j \<le> unat n"
    "length (clients (manager s')) = length (clients (manager s)) + unat j"
    "unat j < unat n \<longrightarrow> r' \<noteq> ISC_R_SUCCESS
          \<and> r' = (case client_create (cos j) ns_clienttype_basic of
                    Inl e \<Rightarrow> e | Inr p \<Rightarrow> fst (ars j))"
    by auto
  have z: "(j = 0) = (unat j = 0)"
    by (simp add: unat_eq_0)
  from assms l have "ns_clientmgr_addtodispatch cos ars s n d =
      Some (if j \<noteq> 0 then ISC_R_SUCCESS else r', s')"
    by (simp add: ns_clientmgr_addtodispatch_def)
  with f n z show "\<exists>res s'. ns_clientmgr_addtodispatch cos ars s n d = Some (res, s')
            \<and> length (clients (manager s)) \<le> length (clients (manager s'))
            \<and> length (clients (manager s')) \<le> length (clients (manager s)) + unat n
            \<and> (length (clients (manager s)) < length (clients (manager s')) \<longrightarrow>
                 res = ISC_R_SUCCESS)
            \<and> (length (clients (manager s')) = length (clients (manager s)) \<longrightarrow>
                 res \<noteq> ISC_R_SUCCESS
                 \<and> res = (case client_create (cos 0) ns_clienttype_basic of
                             Inl e \<Rightarrow> e | Inr p \<Rightarrow> fst (ars 0)))"
    by auto
next
  from assms(3) have n: "0 < unat n"
    by (simp add: word_less_nat_alt)
  obtain j r' s' where l: "accepttcp_loop cos acs sock n 0 ISC_R_SUCCESS s = (j, r', s')"
    by (cases "accepttcp_loop cos acs sock n 0 ISC_R_SUCCESS s")
  from accepttcp_loop_result [OF l] n
  have f: "unat j \<le> unat n"
    "length (clients (manager s')) = length (clients (manager s)) + unat j"
    "unat j < unat n \<longrightarrow> r' \<noteq> ISC_R_SUCCESS
          \<and> client_create (cos j) ns_clienttype_tcp = Inl r'"
    by auto
  have z: "(j = 0) = (unat j = 0)"
    by (simp add: unat_eq_0)
  from assms l have "ns_clientmgr_accepttcp cos acs s sock n =
      Some (if j \<noteq> 0 then ISC_R_SUCCESS else r', s')"
    by (simp add: ns_clientmgr_accepttcp_def)
  with f n z show "\<exists>res s'. ns_clientmgr_accepttcp cos acs s sock n = Some (res, s')
            \<and> length (clients (manager s)) \<le> length (clients (manager s'))
            \<and> length (clients (manager s')) \<le> length (clients (manager s)) + unat n
            \<and> (length (clients (manager s)) < length (clients (manager s')) \<longrightarrow>
                 res = ISC_R_SUCCESS)
            \<and> (length (clients (manager s')) = length (clients (manager s)) \<longrightarrow>
                 res \<noteq> ISC_R_SUCCESS
                 \<and> client_create (cos 0) ns_clienttype_tcp = Inl res)"
    by auto
qed

lemmas create_eval_defs =
  no_clients_def create_ok_def memory_for_one_def client_create_def
  ns_clientmgr_addtodispatch_def ns_clientmgr_accepttcp_def
  addtodispatch_loop.simps accepttcp_loop.simps
  VALID_MANAGER_def MANAGER_MAGIC_def client_accept_def Let_def sample_defs

theorem partial_success_is_success_witness:
  "\<not> manager_freed no_clients \<and> VALID_MANAGER (manager no_clients) \<and> (0 :: 32 word) < 3
   \<and> map_option fst
         (ns_clientmgr_addtodispatch memory_for_one (\<lambda>i. (ISC_R_SUCCESS, 7)) no_clients 3 5) =
       Some ISC_R_SUCCESS
   \<and> map_option (\<lambda>r. manager (snd r))
         (ns_clientmgr_addtodispatch memory_for_one (\<lambda>i. (ISC_R_SUCCESS, 7)) no_clients 3 5) =
       Some \<lparr>m_magic = MANAGER_MAGIC, exiting = False, nclients = 1, clients = [10]\<rparr>
   \<and> map_option fst
         (ns_clientmgr_addtodispatch memory_for_one (\<lambda>i. (ISC_R_TIMEDOUT, 7)) no_clients 3 5) =
       Some ISC_R_TIMEDOUT
   \<and> map_option fst
         (ns_clientmgr_accepttcp memory_for_one (\<lambda>i. all_success) no_clients 3 3) =
       Some ISC_R_SUCCESS
   \<and> map_option (\<lambda>r. manager (snd r))
         (ns_clientmgr_accepttcp memory_for_one (\<lambda>i. all_success) no_clients 3 3) =
       Some \<lparr>m_magic = MANAGER_MAGIC, exiting = False, nclients = 1, clients = [10]\<rparr>
   \<and> map_option fst
         (ns_clientmgr_accepttcp (\<lambda>i. create_ok\<lparr>co_mem := None\<rparr>) (\<lambda>i. all_success)
            no_clients 3 3) =
       Some ISC_R_NOMEMORY"
proof -
  have h: "\<not> manager_freed no_clients" "VALID_MANAGER (manager no_clients)" "(0 :: 32 word) < 3"
    by (simp_all add: no_clients_def VALID_MANAGER_def)
  from partial_success_is_success [OF h, of memory_for_one "\<lambda>i. (ISC_R_SUCCESS, 7)" 5
      "\<lambda>i. all_success" 3]
  have "\<exists>res s'. ns_clientmgr_addtodispatch memory_for_one (\<lambda>i. (ISC_R_SUCCESS, 7))
      no_clients 3 5 = Some (res, s')"
    by blast
  then have "ns_clientmgr_addtodispatch memory_for_one (\<lambda>i. (ISC_R_SUCCESS, 7))
      no_clients 3 5 \<noteq> None"
    by auto
  with h show ?thesis
    by (simp add: create_eval_defs)
qed

subsection \<open>The waiting state between activations\<close>

lemma quiescent_run:
  assumes "quiescent c" and "run acts c = Some c'"
  shows "quiescent c'"
  using assms
proof (induction acts arbitrary: c)
  case Nil
  then show ?case by simp
next
  case (Cons act acts)
  then show ?case
    by (auto split: option.splits intro: quiescent.activated)
qed

lemma client_create_idle:
  assumes "client_create co typ = Inr (a, c)"
  shows "state c = ns_clientstate_idle \<and> nsends c = 0"
  using assms
  by (auto simp: client_create_def split: option.splits if_splits)

lemma quiescent_waiting:
  assumes "quiescent c" and "state c = ns_clientstate_waiting"
  shows "0 < nsends c"
  using assms
proof (induction rule: quiescent.induct)
  case (added_to_dispatch co a c d e)
  then show ?case by simp
next
  case (accepting_tcp co a c oc sock)
  then show ?case
    by (simp add: client_accept_def Let_def split: if_splits)
next
  case (activated c act c')
  then show ?case
    using activation_waiting [of act c c'] by simp
qed

lemma sample_client_quiescent: "quiescent sample_client"
proof -
  have "client_create create_ok ns_clienttype_basic =
      Inr (10, sample_client\<lparr>state := ns_clientstate_idle, dispatch := None, dispentry := None\<rparr>)"
    by (simp add: client_create_def create_ok_def sample_defs)
  from quiescent.added_to_dispatch [OF this, where d = 5 and e = 7] show ?thesis
    by (simp add: sample_defs)
qed

lemma four_queries_run:
  "map_option (\<lambda>c. (state c, nsends c, sendbufs c)) (run four_queries sample_client) =
     Some (ns_clientstate_waiting, 3, 3)"
  by (simp add: four_queries_def one_query_def query_env_def eval_defs2)


lemma addtodispatch_loop_quiescent:
  assumes "addtodispatch_loop cos ars d n i r s = (j, r', s')" and "store s' b = Some cb"
  shows "store s b = Some cb \<or> quiescent cb"
  using assms
proof (induction cos ars d n i r s rule: addtodispatch_loop.induct)
  case (1 cos ars d n i result s)
  show ?case
  proof (cases "i < n")
    case False
    with "1.prems" show ?thesis
      by (simp add: addtodispatch_loop.simps [of cos ars d n i])
  next
    case True
    show ?thesis
    proof (cases "client_create (cos i) ns_clienttype_basic")
      case (Inl e)
      with "1.prems" True show ?thesis
        by (simp add: addtodispatch_loop.simps [of cos ars d n i])
    next
      case (Inr p)
      obtain a c where p: "p = (a, c)" by (cases p)
      show ?thesis
      proof (cases "fst (ars i) = ISC_R_SUCCESS")
        case False
        with "1.prems" True Inr p show ?thesis
          by (auto simp: addtodispatch_loop.simps [of cos ars d n i] Let_def)
      next
        case ok: True
        let ?c1 = "c\<lparr>state := ns_clientstate_listening,
                                 dispatch := Some d, dispentry := Some (snd (ars i))\<rparr>"
        let ?s1 = "s\<lparr>manager := (manager s)
                                 \<lparr>nclients := nclients (manager s) + 1,
                                  clients := clients (manager s) @ [a]\<rparr>,
                      store := (store s)(a \<mapsto> ?c1)\<rparr>"
        from "1.prems" True Inr p ok
        have rec: "addtodispatch_loop cos ars d n (i + 1) ISC_R_SUCCESS ?s1 = (j, r', s')"
          by (simp add: addtodispatch_loop.simps [of cos ars d n i] Let_def)
        have "store ?s1 b = Some cb \<or> quiescent cb"
          using "1.IH" [OF True Inr p [symmetric] refl refl _ refl refl] ok rec "1.prems"(2)
          by auto
        moreover have "quiescent ?c1"
          using Inr p by (auto intro: quiescent.added_to_dispatch)
        ultimately show ?thesis
          by (auto split: if_splits)
      qed
    qed
  qed
qed

lemma accepttcp_loop_quiescent:
  assumes "accepttcp_loop cos acs sock n i r s = (j, r', s')" and "store s' b = Some cb"
  shows "store s b = Some cb \<or> quiescent cb"
  using assms
proof (induction cos acs sock n i r s rule: accepttcp_loop.induct)
  case (1 cos acs sock n i result s)
  show ?case
  proof (cases "i < n")
    case False
    with "1.prems" show ?thesis
      by (simp add: accepttcp_loop.simps [of cos acs sock n i])
  next
    case True
    show ?thesis
    proof (cases "client_create (cos i) ns_clienttype_tcp")
      case (Inl e)
      with "1.prems" True show ?thesis
        by (simp add: accepttcp_loop.simps [of cos acs sock n i])
    next
      case (Inr p)
      obtain a c where p: "p = (a, c)" by (cases p)
      let ?c1 = "client_accept (acs i)
          (c\<lparr>state := ns_clientstate_listening,
             attributes := attributes c OR NS_CLIENTATTR_TCP,
             tcplistener := Some sock\<rparr>)"
      let ?s1 = "s\<lparr>manager := (manager s)
                               \<lparr>nclients := nclients (manager s) + 1,
                                clients := clients (manager s) @ [a]\<rparr>,
                    store := (store s)(a \<mapsto> ?c1)\<rparr>"
      from "1.prems" True Inr p
      have rec: "accepttcp_loop cos acs sock n (i + 1) ISC_R_SUCCESS ?s1 = (j, r', s')"
        by (simp add: accepttcp_loop.simps [of cos acs sock n i] Let_def)
      have "store ?s1 b = Some cb \<or> quiescent cb"
        using "1.IH" [OF True Inr p [symmetric] refl refl refl refl refl] rec "1.prems"(2)
        by auto
      moreover have "quiescent ?c1"
        using Inr p by (auto intro: quiescent.accepting_tcp)
      ultimately show ?thesis
        by (auto split: if_splits)
    qed
  qed
qed

text \<open>
  C8.  A client met between two activations (as the manager has added it to its list, or
  as any sequence of activations has left it) that is waiting has a send outstanding
  (\<open>0 < nsends\<close>).  More generally, whatever runs on the task of a client (an event
  handler of the file, or a call of one of the three operations by a request handler)
  and returns, from any client at all, leaves the client either not waiting or with a
  send outstanding; in particular \<^verbatim>\<open>client_senddone\<close> does so on a client that was
  waiting.  The clients that \<^verbatim>\<open>ns_clientmgr_addtodispatch\<close> and
  \<^verbatim>\<open>ns_clientmgr_accepttcp\<close> put in the store are among those of the first
  sentence (\<open>addtodispatch_loop_quiescent\<close>, \<open>accepttcp_loop_quiescent\<close>).
\<close>

theorem waiting_has_send_outstanding:
  "(quiescent c \<and> state c = ns_clientstate_waiting \<longrightarrow> 0 < nsends c)
   \<and> (activate act c1 = Some c2 \<and> state c2 = ns_clientstate_waiting \<longrightarrow> 0 < nsends c2)
   \<and> (client_senddone oc tsk ev c1 = Some c2 \<and> state c1 = ns_clientstate_waiting \<longrightarrow>
        state c2 \<noteq> ns_clientstate_waiting \<or> 0 < nsends c2)"
  using quiescent_waiting [of c] activation_waiting [of act c1 c2 oc tsk ev]
  by blast

theorem waiting_has_send_outstanding_witness:
  "quiescent (the (run four_queries sample_client))
   \<and> state (the (run four_queries sample_client)) = ns_clientstate_waiting
   \<and> 0 < nsends (the (run four_queries sample_client))
   \<and> activate (Handler_send all_success) busy_client =
       Some (busy_client\<lparr>state := ns_clientstate_waiting,
               trace := [Call_send, Ext_mempool_get False]\<rparr>)
   \<and> client_senddone (all_success\<lparr>o_sendto := ISC_R_TIMEDOUT\<rparr>) 1 ISC_SOCKEVENT_SENDDONE
         (busy_client\<lparr>state := ns_clientstate_waiting\<rparr>) =
       Some (busy_client\<lparr>state := ns_clientstate_listening, dispevent := None,
               nsends := 2, sendbufs := 2,
               trace := [Ext_mempool_put, Call_send, Ext_mempool_get True,
                         Ext_renderbegin ISC_R_SUCCESS,
                         Ext_rendersection DNS_SECTION_QUESTION ISC_R_SUCCESS,
                         Ext_rendersection DNS_SECTION_ANSWER ISC_R_SUCCESS,
                         Ext_rendersection DNS_SECTION_AUTHORITY ISC_R_SUCCESS,
                         Ext_rendersection DNS_SECTION_ADDITIONAL ISC_R_SUCCESS,
                         Ext_renderend ISC_R_SUCCESS,
                         Ext_sendto (Udp_peer 42) 0 ISC_R_TIMEDOUT,
                         Ext_mempool_put,
                         Call_next ISC_R_TIMEDOUT, Ext_message_reset, Ext_freeevent]\<rparr>)"
proof -
  from four_queries_run obtain c' where
    r: "run four_queries sample_client = Some c'"
    and s: "state c' = ns_clientstate_waiting"
    by auto
  from quiescent_run [OF sample_client_quiescent r] have q: "quiescent c'" .
  from waiting_has_send_outstanding [of c'] q s have "0 < nsends c'"
    by blast
  with r s q show ?thesis
    by (simp add: eval_defs client_senddone_def)
qed

subsection \<open>The count of sends and the pool\<close>

text \<open>
  Between activations \<^verbatim>\<open>nsends\<close> is the number of buffers handed out, at most three
  (\<open>quiescent_pool_inv\<close>): the C \<^verbatim>\<open>int\<close> that holds it does not overflow.
\<close>

lemma next_pool_inv:
  "ns_client_next oc c r = Some c' \<Longrightarrow> pool_inv c \<Longrightarrow> pool_inv c'"
  by (auto simp: pool_inv_def dest!: next_props)

lemma send_pool_inv:
  assumes "ns_client_send oc c = Some c'" and "pool_inv c"
  shows "pool_inv c'"
proof (cases "fst (isc_mempool_get (o_mem oc) (sendbufs c))")
  case False
  with assms show ?thesis
    unfolding ns_client_send_def Let_def
    apply (simp split: if_splits prod.splits)
     apply (auto simp: pool_inv_def isc_mempool_get_def split: if_splits dest!: next_props)
    done
next
  case True
  obtain n where g: "isc_mempool_get (o_mem oc) (sendbufs c) = (True, n)"
    using True by (cases "isc_mempool_get (o_mem oc) (sendbufs c)") auto
  then have n: "n = sendbufs c + 1" "sendbufs c < SENDBUFS_MAXALLOC"
    by (auto simp: isc_mempool_get_def split: if_splits)
  obtain c1 r where sr: "send_render oc ((emit [Call_send, Ext_mempool_get True] c)
      \<lparr>sendbufs := n\<rparr>) = (c1, r)"
    by (cases "send_render oc ((emit [Call_send, Ext_mempool_get True] c)\<lparr>sendbufs := n\<rparr>)")
  from send_render_props [OF sr] have
    c1: "sendbufs c1 = n" "nsends c1 = (if r = ISC_R_SUCCESS then nsends c + 1 else nsends c)"
    by auto
  from assms g sr have "send_done oc c1 r = Some c'"
    by (simp add: ns_client_send_def Let_def emit_def split: if_splits)
  then show ?thesis
    using c1 n assms(2)
    by (auto simp: send_done_def Let_def pool_inv_def isc_mempool_put_def
             split: if_splits dest!: next_props)
qed

lemma error_pool_inv:
  assumes "ns_client_error oc c r = Some c'" and "pool_inv c"
  shows "pool_inv c'"
proof -
  have *: "\<And>m es. pool_inv (c\<lparr>message := m, trace := es\<rparr>)"
    using assms(2) by (simp add: pool_inv_def)
  from assms(1) show ?thesis
    unfolding ns_client_error_def Let_def
    apply (simp split: if_splits prod.splits add: emit_def)
    apply (auto dest!: next_pool_inv send_pool_inv simp: pool_inv_def assms(2) [unfolded pool_inv_def])
    done
qed


lemma pool_inv_updates [simp]:
  "pool_inv (emit es c) = pool_inv c"
  "pool_inv (c\<lparr>state := st\<rparr>) = pool_inv c"
  "pool_inv (c\<lparr>dispevent := d\<rparr>) = pool_inv c"
  "pool_inv (c\<lparr>requesttime := t\<rparr>) = pool_inv c"
  "pool_inv (c\<lparr>message := m\<rparr>) = pool_inv c"
  "pool_inv (c\<lparr>view := v\<rparr>) = pool_inv c"
  "pool_inv (c\<lparr>tcpsocket := so\<rparr>) = pool_inv c"
  by (simp_all add: pool_inv_def emit_def)

lemma dispatch_pool_inv:
  assumes "request_dispatch oc1 oc2 c = Some c'" and "pool_inv c"
  shows "pool_inv c'"
  using assms
  by (auto simp: request_dispatch_def split: dns_opcode.splits option.splits
           dest: next_pool_inv error_pool_inv)

lemma request_pool_inv:
  assumes "client_request rq oc1 oc2 tsk ev c = Some c'" and "pool_inv c"
  shows "pool_inv c'"
proof -
  from assms(1) obtain c0 b r where i: "request_input ev c = Some (c0, b, r)"
    by (auto simp: client_request_def split: if_splits option.splits)
  with assms(2) have p0: "pool_inv c0"
    by (auto simp: request_input_def split: isc_event.splits if_splits)
  from assms(1) i p0 show ?thesis
    by (auto simp: client_request_def Let_def split: if_splits prod.splits option.splits
             dest: next_pool_inv error_pool_inv dispatch_pool_inv)
qed

lemma activate_pool_inv:
  assumes "activate act c = Some c'" and "pool_inv c"
  shows "pool_inv c'"
proof (cases act)
  case (On_request rq oc1 oc2 tsk ev)
  with assms show ?thesis by (auto dest: request_pool_inv)
next
  case (On_senddone oc tsk ev)
  have "0 < nsends c \<Longrightarrow> pool_inv (c\<lparr>nsends := nsends c - 1,
      sendbufs := isc_mempool_put (sendbufs c)\<rparr>)"
    using assms(2) by (auto simp: pool_inv_def isc_mempool_put_def)
  with assms On_senddone show ?thesis
    by (auto simp: client_senddone_def Let_def emit_def pool_inv_def isc_mempool_put_def
             split: if_splits dest!: send_pool_inv [unfolded pool_inv_def])
next
  case (On_timeout oc tsk ev)
  with assms show ?thesis
    by (auto simp: client_timeout_def split: if_splits dest: next_pool_inv)
next
  case (On_newconn oc tsk ev)
  with assms show ?thesis
    by (auto simp: client_newconn_def pool_inv_def split: if_splits isc_event.splits
             dest!: client_read_props)
next
  case (Handler_send oc)
  with assms show ?thesis by (auto dest: send_pool_inv)
next
  case (Handler_error oc r)
  with assms show ?thesis by (auto dest: error_pool_inv)
next
  case (Handler_next oc r)
  with assms show ?thesis by (auto dest: next_pool_inv)
qed

lemma quiescent_pool_inv:
  assumes "quiescent c"
  shows "pool_inv c"
  using assms
proof (induction rule: quiescent.induct)
  case (added_to_dispatch co a c d e)
  then show ?case
    by (auto simp: pool_inv_def client_create_def split: option.splits if_splits)
next
  case (accepting_tcp co a c oc sock)
  then show ?case
    by (auto simp: pool_inv_def client_create_def client_accept_def Let_def
             split: option.splits if_splits)
next
  case (activated c act c')
  then show ?case
    by (auto intro: activate_pool_inv)
qed

end
